(* ===== verification/Go_Prelude.thy ===== *)
theory Go_Prelude
  imports Main "HOL-Library.Monad_Syntax" "HOL-Library.AList" "HOL-Library.Multiset"
    "HOL-Library.Signed_Division"
begin

text \<open>
  What the transport uses of the Go language and of Go's standard library, shared by every other
  theory: error values and the walk \<open>errors.Is\<close> makes over them, single-character
  \<open>strings.Index\<close>, Go maps with an arbitrary iteration order, buffered channels with the
  non-blocking send of a \<open>select\<close> that has a \<open>default\<close> branch, and durations.

  Conventions of the whole development. A Go \<open>error\<close> result is a \<open>go_error option\<close>
  (\<open>None\<close> is \<open>nil\<close>). A function that can panic returns an \<open>option\<close>, and \<open>None\<close> is the
  panic; no code of the transport recovers from one, so a panic ends the process and nothing after
  it is modelled. A pointer or interface value that may be \<open>nil\<close> is an \<open>option\<close>.
\<close>

named_theorems trace_simps
  \<open>the calls each operation adds to the trace, and the parts of the world it leaves alone\<close>

named_theorems conn_simps
  \<open>how the operations on a connection change its fields\<close>

section \<open>Errors\<close>

text \<open>
  The distinguished error values of the package (\<open>connection.go\<close>, \<open>headers.go\<close>,
  \<open>outbox_adapter.go\<close>), the value \<open>spec.ErrParseJSON\<close> of the specification package and the error
  type \<open>prometheus.AlreadyRegisteredError\<close>, which the code looks for with \<open>errors.Is\<close> and
  \<open>errors.As\<close>.
\<close>

datatype error_kind =
    ErrAlreadyStarted
  | ErrEmptySuffix
  | ErrNoMessageTypeForRouteKey
  | ErrEmptyHeaderKey
  | ErrPublisherNotWired
  | ErrParseJSON
  | AlreadyRegisteredError

text \<open>
  An error is one of these, any other error of which only the text is known (\<open>errors.New\<close>,
  \<open>fmt.Errorf\<close> without \<open>%w\<close>, the errors of other packages), or the result of \<open>fmt.Errorf\<close> with
  \<open>%w\<close> (or \<open>errors.Join\<close>): its whole text and the errors it unwraps to.
\<close>

datatype go_error =
    Known error_kind
  | Plain string
  | Wrapf string "go_error list"

fun errors_is :: "go_error \<Rightarrow> error_kind \<Rightarrow> bool" where
  "errors_is (Known k) t \<longleftrightarrow> k = t"
| "errors_is (Plain s) t \<longleftrightarrow> False"
| "errors_is (Wrapf s es) t \<longleftrightarrow> list_ex (\<lambda>e. errors_is e t) es"

text \<open>
  \<open>err.Error()\<close>. The texts of the package's own values are in the source; \<open>ext\<close> gives the texts
  of the two values of other packages.
\<close>

fun kind_text :: "(error_kind \<Rightarrow> string) \<Rightarrow> error_kind \<Rightarrow> string" where
  "kind_text ext ErrAlreadyStarted = ''already started''"
| "kind_text ext ErrEmptySuffix = ''empty consumer suffix not allowed''"
| "kind_text ext ErrNoMessageTypeForRouteKey = ''no message type for routing key configured''"
| "kind_text ext ErrEmptyHeaderKey = ''empty key not allowed''"
| "kind_text ext ErrPublisherNotWired =
     ''publisher not wired '' @ [CHR 0xE2, CHR 0x80, CHR 0x94] @ '' call a Setup function first''"
| "kind_text ext ErrParseJSON = ext ErrParseJSON"
| "kind_text ext AlreadyRegisteredError = ext AlreadyRegisteredError"

fun error_text :: "(error_kind \<Rightarrow> string) \<Rightarrow> go_error \<Rightarrow> string" where
  "error_text ext (Known k) = kind_text ext k"
| "error_text ext (Plain s) = s"
| "error_text ext (Wrapf s es) = s"

text \<open>\<open>fmt.Errorf("<prefix>: %w", err)\<close>, the form in which the package wraps errors.\<close>

definition wrap_error :: "(error_kind \<Rightarrow> string) \<Rightarrow> string \<Rightarrow> go_error \<Rightarrow> go_error" where
  "wrap_error ext what e = Wrapf (what @ '': '' @ error_text ext e) [e]"

text \<open>\<open>fmt.Errorf("%w: %v", spec.ErrParseJSON, err)\<close>: only \<open>spec.ErrParseJSON\<close> is wrapped.\<close>

definition parse_error :: "(error_kind \<Rightarrow> string) \<Rightarrow> go_error \<Rightarrow> go_error" where
  "parse_error ext e =
     Wrapf (kind_text ext ErrParseJSON @ '': '' @ error_text ext e) [Known ErrParseJSON]"

lemma errors_is_wrap_error [simp]: "errors_is (wrap_error ext p e) t = errors_is e t"
  by (simp add: wrap_error_def)

lemma errors_is_parse_error [simp]: "errors_is (parse_error ext e) t \<longleftrightarrow> t = ErrParseJSON"
  by (auto simp: parse_error_def)

section \<open>Strings\<close>

text \<open>\<open>strings.Index(s, c)\<close> for a one-byte \<open>c\<close>; \<open>None\<close> is the result -1.\<close>

fun strings_index :: "string \<Rightarrow> char \<Rightarrow> nat option" where
  "strings_index [] c = None"
| "strings_index (x # xs) c = (if x = c then Some 0 else map_option Suc (strings_index xs c))"

lemma strings_index_None [simp]: "strings_index s c = None \<longleftrightarrow> c \<notin> set s"
  by (induction s) auto

lemma strings_index_append:
  "c \<notin> set p \<Longrightarrow> strings_index (p @ c # q) c = Some (length p)"
  by (induction p) auto

text \<open>\<open>%d\<close>: the decimal digits of an integer.\<close>

fun nat_digits :: "nat \<Rightarrow> string" where
  "nat_digits n =
     (if n < 10 then [char_of (48 + n)] else nat_digits (n div 10) @ [char_of (48 + n mod 10)])"

declare nat_digits.simps [simp del]

definition int_digits :: "int \<Rightarrow> string" where
  "int_digits i = (if i < 0 then ''-'' @ nat_digits (nat (- i)) else nat_digits (nat i))"

section \<open>Go maps\<close>

text \<open>
  A Go map that the code ranges over is an association list with distinct keys. \<open>range\<close> visits the
  entries in an order Go leaves open; here it is the order of an arbitrary ranking of the keys, so
  that every order is the order of some ranking and every ranking gives a permutation.
\<close>

type_synonym 'v gomap = "(string \<times> 'v) list"

definition range_order :: "(string \<Rightarrow> nat) \<Rightarrow> 'v gomap \<Rightarrow> 'v gomap" where
  "range_order rank m = sort_key (\<lambda>kv. rank (fst kv)) m"

definition gomap_ok :: "'v gomap \<Rightarrow> bool" where
  "gomap_ok m \<longleftrightarrow> distinct (map fst m)"

lemma set_range_order [simp]: "set (range_order rank m) = set m"
  by (simp add: range_order_def)

lemma mset_range_order [simp]: "mset (range_order rank m) = mset m"
  by (simp add: range_order_def)

lemma range_order_Nil [simp]: "range_order rank [] = []"
  by (simp add: range_order_def)

lemma range_order_singleton [simp]: "range_order rank [kv] = [kv]"
  by (simp add: range_order_def)

lemma distinct_range_order [simp]:
  "distinct (map fst (range_order rank m)) \<longleftrightarrow> distinct (map fst m)"
proof -
  have "mset (map fst (range_order rank m)) = mset (map fst m)"
    by simp
  then show ?thesis
    by (metis mset_eq_imp_distinct_iff)
qed

lemma map_of_range_order [simp]:
  "gomap_ok m \<Longrightarrow> map_of (range_order rank m) = map_of m"
  by (rule map_of_inject_set [THEN iffD2]) (simp_all add: gomap_ok_def)

section \<open>Channels\<close>

text \<open>
  A channel with a buffer of \<open>ch_cap\<close> elements. \<open>ch_waiting\<close> receivers are blocked on it (only
  possible while the buffer is empty); \<open>ch_handed\<close> are the values handed over to such receivers,
  oldest first.
\<close>

record 'a chan =
  ch_cap :: nat
  ch_buf :: "'a list"
  ch_waiting :: nat
  ch_handed :: "'a list"
  ch_closed :: bool

definition chan_ok :: "'a chan \<Rightarrow> bool" where
  "chan_ok c \<longleftrightarrow> length (ch_buf c) \<le> ch_cap c \<and> (0 < ch_waiting c \<longrightarrow> ch_buf c = [])"

text \<open>
  \<open>select { case ch <- v: default: }\<close>: sending on a closed channel panics, a waiting receiver gets
  the value, a buffer with room takes it, and otherwise the \<open>default\<close> branch drops it.
\<close>

definition try_send :: "'a \<Rightarrow> 'a chan \<Rightarrow> 'a chan option" where
  "try_send v c =
     (if ch_closed c then None
      else if 0 < ch_waiting c then
        Some (c\<lparr>ch_waiting := ch_waiting c - 1, ch_handed := ch_handed c @ [v]\<rparr>)
      else if length (ch_buf c) < ch_cap c then Some (c\<lparr>ch_buf := ch_buf c @ [v]\<rparr>)
      else Some c)"

text \<open>What has been taken in by the channel so far.\<close>

definition chan_values :: "'a chan \<Rightarrow> 'a list" where
  "chan_values c = ch_handed c @ ch_buf c"

lemma try_send_None [simp]: "try_send v c = None \<longleftrightarrow> ch_closed c"
  by (simp add: try_send_def)

lemma try_send_open: "\<not> ch_closed c \<Longrightarrow> \<exists>c'. try_send v c = Some c'"
  by (simp add: try_send_def)

lemma try_send_ok: "chan_ok c \<Longrightarrow> try_send v c = Some c' \<Longrightarrow> chan_ok c'"
  by (auto simp: try_send_def chan_ok_def split: if_splits)

lemma try_send_values:
  "chan_ok c \<Longrightarrow> try_send v c = Some c' \<Longrightarrow>
   chan_values c' = (if 0 < ch_waiting c \<or> length (ch_buf c) < ch_cap c
                     then chan_values c @ [v] else chan_values c)"
  by (auto simp: try_send_def chan_ok_def chan_values_def split: if_splits)

lemma try_send_closed: "try_send v c = Some c' \<Longrightarrow> ch_closed c' = ch_closed c"
  by (auto simp: try_send_def split: if_splits)

section \<open>Durations\<close>

text \<open>\<open>time.Duration\<close> counts nanoseconds; \<open>Milliseconds()\<close> divides by a million, towards zero.\<close>

definition second :: int where
  "second = 1000000000"

definition milliseconds :: "int \<Rightarrow> int" where
  "milliseconds d = d sdiv 1000000"

text \<open>
  \<open>Duration.String()\<close> (the verb \<open>%s\<close>): a decimal fraction without trailing zeros in the largest
  unit below a second, or hours, minutes and seconds. \<open>decimal n v\<close> writes \<open>v / 10 ^ n\<close>.
\<close>

fun pad_zeros :: "nat \<Rightarrow> string \<Rightarrow> string" where
  "pad_zeros n s = replicate (n - length s) (CHR ''0'') @ s"

definition drop_zeros :: "string \<Rightarrow> string" where
  "drop_zeros s = rev (dropWhile (\<lambda>c. c = CHR ''0'') (rev s))"

definition decimal :: "nat \<Rightarrow> nat \<Rightarrow> string" where
  "decimal n v =
     (let ds = drop_zeros (pad_zeros n (nat_digits (v mod 10 ^ n)))
      in nat_digits (v div 10 ^ n) @ (if n = 0 \<or> ds = [] then [] else ''.'' @ ds))"

definition duration_string :: "int \<Rightarrow> string" where
  "duration_string d =
     (let u = nat \<bar>d\<bar>; s = u div 10 ^ 9; m = s div 60; h = m div 60
      in (if d < 0 then ''-'' else []) @
         (if u = 0 then ''0s''
          else if u < 10 ^ 3 then decimal 0 u @ ''ns''
          else if u < 10 ^ 6 then decimal 3 u @ [CHR 0xC2, CHR 0xB5] @ ''s''
          else if u < 10 ^ 9 then decimal 6 u @ ''ms''
          else (if h > 0 then nat_digits h @ ''h'' else []) @
               (if m > 0 then nat_digits (m mod 60) @ ''m'' else []) @
               decimal 9 ((s mod 60) * 10 ^ 9 + u mod 10 ^ 9) @ ''s''))"

section \<open>Repeating a step\<close>

text \<open>A step that may panic, made for each element of a list in turn.\<close>

fun iterate :: "('m \<Rightarrow> 'w \<Rightarrow> 'w option) \<Rightarrow> 'm list \<Rightarrow> 'w \<Rightarrow> 'w option" where
  "iterate step [] w = Some w"
| "iterate step (m # ms) w = do { w \<leftarrow> step m w; iterate step ms w }"

text \<open>
  The contract of a step that logs one entry per element, and what it says of a whole run: the
  entries come one per element and in order. \<open>logged\<close> reads the log of a state.
\<close>

locale logs_once =
  fixes step :: "'m \<Rightarrow> 'w \<Rightarrow> 'w option"
    and logged :: "'w \<Rightarrow> 'k list"
    and key :: "'m \<Rightarrow> 'k"
  assumes step_logs: "step m w = Some w' \<Longrightarrow> logged w' = logged w @ [key m]"
begin

lemma iterate_logs: "iterate step ms w = Some w' \<Longrightarrow> logged w' = logged w @ map key ms"
  by (induction ms arbitrary: w) (auto simp: bind_eq_Some_conv dest!: step_logs)

lemma iterate_logs_distinct:
  "iterate step ms w = Some w' \<Longrightarrow> distinct (logged w @ map key ms) \<Longrightarrow> distinct (logged w')"
  by (simp add: iterate_logs)

end

end
