(* ===== verification/Nats_Env.thy ===== *)
theory Nats_Env
  imports Go_Prelude
begin

text \<open>
  The environment of the transport: the data it exchanges with other packages, the calls it makes
  on them, and the parameters that stand for code outside the repository.

  The specification package (\<open>spec\<close>), the NATS client (\<open>natsgo\<close>, \<open>jetstream\<close>), OpenTelemetry,
  Prometheus and the UUID package are not part of the repository. Their pure functions are fields
  of the record \<open>ext\<close>, an argument of every definition that uses one; values of their types that
  the transport only passes around (contexts, metadata, tracers, propagators, client options) have
  the type variable \<open>'x\<close>. Every call with an effect is a value of type \<open>call\<close>, appended to the
  trace of the world, and its error result is what the field \<open>answer\<close> gives for it after the calls
  made before: an arbitrary function of the history, so that a theorem holds for every behaviour of
  the broker. Clock readings, fresh UUIDs and the iteration order of Go maps (a ranking of the keys,
  per loop of the source) are functions of the history in the same way.
\<close>

section \<open>Data of the specification package\<close>

text \<open>\<open>map[string]any\<close>: a header value is a string or some other value.\<close>

datatype 'x any_value = AnyString string | AnyOther 'x

type_synonym 'x spec_headers = "'x any_value gomap"

record 'x delivery_info =
  di_Destination :: string
  di_Source :: string
  di_Key :: string
  di_Headers :: "'x spec_headers"

datatype direction = DirectionPublish | DirectionConsume

datatype pattern =
    PatternEventStream | PatternCustomStream | PatternServiceRequest | PatternServiceResponse

datatype exchange_kind = ExchangeTopic | ExchangeDirect | ExchangeHeaders

datatype transport = TransportNATS

record endpoint =
  ep_Direction :: direction
  ep_Pattern :: pattern
  ep_ExchangeName :: string
  ep_ExchangeKind :: exchange_kind
  ep_QueueName :: string
  ep_RoutingKey :: string
  ep_MessageType :: string
  ep_Ephemeral :: bool

record topology =
  tp_Transport :: transport
  tp_ServiceName :: string
  tp_Endpoints :: "endpoint list"

datatype notification_source = NotificationSourceConsumer

record 'x notification =
  nt_DeliveryInfo :: "'x delivery_info"
  nt_Source :: notification_source
  nt_Duration :: int

record 'x error_notification =
  en_Error :: go_error
  en_DeliveryInfo :: "'x delivery_info"
  en_Source :: notification_source
  en_Duration :: int

section \<open>Data of the NATS client\<close>

text \<open>\<open>type Header map[string][]string\<close>.\<close>

type_synonym nats_header = "string list gomap"

record nats_msg =
  msg_Subject :: string
  msg_Reply :: string
  msg_Header :: nats_header
  msg_Data :: string

text \<open>A message delivered by JetStream; \<open>jm_Id\<close> tells the messages of a run apart.\<close>

record js_msg =
  jm_Id :: nat
  jm_Subject :: string
  jm_Headers :: nats_header
  jm_Data :: string

datatype storage_type = FileStorage

record js_stream_config =
  sc_Name :: string
  sc_Subjects :: "string list"
  sc_Storage :: storage_type
  sc_MaxAge :: int
  sc_MaxBytes :: int
  sc_MaxMsgs :: int

record js_consumer_config =
  jc_Durable :: string
  jc_FilterSubject :: string
  jc_FilterSubjects :: "string list"
  jc_MaxDeliver :: int
  jc_BackOff :: "int list"

section \<open>Data of the metrics and tracing packages\<close>

record metric_desc =
  md_Name :: string
  md_Help :: string
  md_Buckets :: "int list"
  md_Labels :: "string list"

datatype attr_value = AttrString string | AttrInt int

type_synonym attribute = "string \<times> attr_value"

datatype span_kind = SpanKindConsumer | SpanKindProducer

datatype status_code = StatusError | StatusOk

datatype log_level = LevelDebug | LevelInfo | LevelWarn | LevelError

section \<open>The event handed to a wrapped handler\<close>

text \<open>\<open>unmarshalEvent\<close> of \<open>consumable_event.go\<close>; the metadata are whatever
  \<open>spec.MetadataFromHeaders\<close> returned.\<close>

record 'x unmarshalEvent =
  ue_Metadata :: 'x
  ue_DeliveryInfo :: "'x delivery_info"
  ue_Payload :: string

section \<open>Calls and parameters\<close>

datatype 'x call =
    NatsConnect string "'x list"
  | JetStreamNew
  | NcClose
  | NcDrain
  | NcSubscribe string
  | CreateOrUpdateStream js_stream_config
  | CreateOrUpdateConsumer string js_consumer_config
  | Consume string js_consumer_config
  | ConsumeStop nat
  | MsgAck nat
  | MsgNak nat
  | MsgTerm nat
  | MsgRespond string string
  | PublishMsg nats_msg
  | RequestMsg nats_msg int
  | InvokeHandler "'x unmarshalEvent"
  | CounterInc metric_desc "string list"
  | HistogramObserve metric_desc "string list" int
  | RegisterCollector metric_desc
  | SpanStart string span_kind "attribute list"
  | SpanSetAttributes "attribute list"
  | SpanRecordError go_error
  | SpanSetStatus status_code string
  | SpanEnd
  | Log log_level string

text \<open>Pure functions and constants of the specification package.\<close>

record spec_pkg =
  spec_NATSStreamName :: "string \<Rightarrow> string"
  spec_NATSSubject :: "string \<Rightarrow> string \<Rightarrow> string"
  spec_TranslateWildcard :: "string \<Rightarrow> string"
  spec_MatchRoutingKey :: "string \<Rightarrow> string \<Rightarrow> bool"
  spec_CESpecVersion :: string
  spec_CESpecVersionValue :: string
  spec_CEType :: string
  spec_CESource :: string
  spec_CEDataContentType :: string
  spec_CETime :: string
  spec_CEID :: string

text \<open>All parameters: the fields above, the other packages and the environment's answers.\<close>

record 'x ext = spec_pkg +
  spec_MetadataFromHeaders :: "'x spec_headers \<Rightarrow> 'x"
  spec_ValidateCEHeaders :: "'x spec_headers \<Rightarrow> string list"
  header_set :: "nats_header \<Rightarrow> string \<Rightarrow> string \<Rightarrow> nats_header"
  header_get :: "nats_header \<Rightarrow> string \<Rightarrow> string"
  ext_error_text :: "error_kind \<Rightarrow> string"
  otel_GetTracerProvider :: 'x
  otel_GetTextMapPropagator :: 'x
  provider_Tracer :: "'x \<Rightarrow> string \<Rightarrow> 'x"
  propagator_Inject :: "'x \<Rightarrow> 'x \<Rightarrow> string gomap"
  propagator_Extract :: "'x \<Rightarrow> 'x \<Rightarrow> string gomap \<Rightarrow> 'x"
  tracer_Start :: "'x \<Rightarrow> 'x \<Rightarrow> string \<Rightarrow> 'x"
  context_Background :: 'x
  answer :: "'x call list \<Rightarrow> 'x call \<Rightarrow> go_error option"
  clock :: "'x call list \<Rightarrow> int"
  now_rfc3339 :: "'x call list \<Rightarrow> string"
  uuid_New :: "'x call list \<Rightarrow> string"
  map_rank :: "'x call list \<Rightarrow> string \<Rightarrow> string \<Rightarrow> nat"

text \<open>\<open>err.Error()\<close> with the texts of the parameters.\<close>

definition err_text :: "('x, 'e) ext_scheme \<Rightarrow> go_error \<Rightarrow> string" where
  "err_text E = error_text (ext_error_text E)"

section \<open>The world\<close>

text \<open>
  The trace of calls and the one package-level variable that operations change,
  \<open>routingKeyMapperVal\<close> of \<open>metrics.go\<close>. Other components extend the record with the state they
  keep.
\<close>

record 'x world =
  trace :: "'x call list"
  routingKeyMapperVal :: "string \<Rightarrow> string"

definition emit :: "'x call \<Rightarrow> ('x, 'w) world_scheme \<Rightarrow> ('x, 'w) world_scheme" where
  "emit c w = w\<lparr>trace := trace w @ [c]\<rparr>"

definition perform ::
  "'x ext \<Rightarrow> 'x call \<Rightarrow> ('x, 'w) world_scheme \<Rightarrow> go_error option \<times> ('x, 'w) world_scheme" where
  "perform E c w = (answer E (trace w) c, emit c w)"

text \<open>\<open>c.log().Info(...)\<close> and the like; the attributes of a log record are not modelled.\<close>

definition log_at :: "log_level \<Rightarrow> string \<Rightarrow> ('x, 'w) world_scheme \<Rightarrow> ('x, 'w) world_scheme" where
  "log_at l s w = emit (Log l s) w"

lemma trace_emit [trace_simps, simp]: "trace (emit c w) = trace w @ [c]"
  by (simp add: emit_def)

lemma mapper_emit [trace_simps, simp]: "routingKeyMapperVal (emit c w) = routingKeyMapperVal w"
  by (simp add: emit_def)

lemma trace_log_at [trace_simps, simp]: "trace (log_at l s w) = trace w @ [Log l s]"
  by (simp add: log_at_def)

lemma mapper_log_at [trace_simps, simp]:
  "routingKeyMapperVal (log_at l s w) = routingKeyMapperVal w"
  by (simp add: log_at_def)

lemma perform_eq [trace_simps]: "perform E c w = (answer E (trace w) c, emit c w)"
  by (fact perform_def)

section \<open>Documented behaviour the code relies on\<close>

text \<open>
  \<open>nats.Header\<close>: \<open>Set\<close> replaces the values of a key by one value and leaves the other keys alone,
  \<open>Get\<close> returns the first value of a key and \<open>""\<close> where there is none. The keys are case
  sensitive.
\<close>

definition header_laws :: "('x, 'e) ext_scheme \<Rightarrow> bool" where
  "header_laws E \<longleftrightarrow>
     (\<forall>k. header_get E [] k = '''') \<and>
     (\<forall>h k v k'. header_get E (header_set E h k v) k' = (if k' = k then v else header_get E h k')) \<and>
     (\<forall>h k v. fst ` set (header_set E h k v) = insert k (fst ` set h)) \<and>
     (\<forall>h k v. gomap_ok h \<longrightarrow> gomap_ok (header_set E h k v))"

text \<open>\<open>spec.NATSSubject\<close> builds \<open><stream>.<routingKey>\<close>.\<close>

definition subject_law :: "('e) spec_pkg_scheme \<Rightarrow> bool" where
  "subject_law E \<longleftrightarrow> (\<forall>s k. spec_NATSSubject E s k = s @ ''.'' @ k)"

text \<open>The CloudEvents header names are pairwise different, and none is the reserved name.\<close>

definition ce_keys :: "('e) spec_pkg_scheme \<Rightarrow> string list" where
  "ce_keys E = [spec_CESpecVersion E, spec_CEType E, spec_CESource E,
                spec_CEDataContentType E, spec_CETime E, spec_CEID E]"

definition ce_names_law :: "('e) spec_pkg_scheme \<Rightarrow> bool" where
  "ce_names_law E \<longleftrightarrow> distinct (ce_keys E) \<and> ''service'' \<notin> set (ce_keys E)"

lemma header_get_Nil: "header_laws E \<Longrightarrow> header_get E [] k = ''''"
  by (simp add: header_laws_def)

lemma header_get_set:
  "header_laws E \<Longrightarrow>
   header_get E (header_set E h k v) k' = (if k' = k then v else header_get E h k')"
  by (simp add: header_laws_def)

lemma header_keys_set:
  "header_laws E \<Longrightarrow> fst ` set (header_set E h k v) = insert k (fst ` set h)"
  by (simp add: header_laws_def)

lemma header_ok_set: "header_laws E \<Longrightarrow> gomap_ok h \<Longrightarrow> gomap_ok (header_set E h k v)"
  by (simp add: header_laws_def)

section \<open>A concrete environment\<close>

text \<open>
  An instance of the parameters that satisfies the laws above, for evaluating the definitions at
  concrete inputs: headers as association lists, the CloudEvents names the repository's tests use,
  a broker that accepts every call. \<open>unit\<close> stands for the opaque values.
\<close>

definition alist_header_set :: "nats_header \<Rightarrow> string \<Rightarrow> string \<Rightarrow> nats_header" where
  "alist_header_set h k v = AList.update k [v] h"

definition alist_header_get :: "nats_header \<Rightarrow> string \<Rightarrow> string" where
  "alist_header_get h k = (case map_of h k of Some (v # vs) \<Rightarrow> v | _ \<Rightarrow> '''')"

definition demo_ext :: "unit ext" where
  "demo_ext =
    \<lparr>spec_NATSStreamName = (\<lambda>s. s),
     spec_NATSSubject = (\<lambda>s k. s @ ''.'' @ k),
     spec_TranslateWildcard = map (\<lambda>c. if c = CHR ''#'' then CHR ''>'' else c),
     spec_MatchRoutingKey = (\<lambda>p k. p = k),
     spec_CESpecVersion = ''ce-specversion'',
     spec_CESpecVersionValue = ''1.0'',
     spec_CEType = ''ce-type'',
     spec_CESource = ''ce-source'',
     spec_CEDataContentType = ''ce-datacontenttype'',
     spec_CETime = ''ce-time'',
     spec_CEID = ''ce-id'',
     spec_MetadataFromHeaders = (\<lambda>_. ()),
     spec_ValidateCEHeaders = (\<lambda>_. []),
     header_set = alist_header_set,
     header_get = alist_header_get,
     ext_error_text = (\<lambda>_. ''failed to parse JSON''),
     otel_GetTracerProvider = (),
     otel_GetTextMapPropagator = (),
     provider_Tracer = (\<lambda>_ _. ()),
     propagator_Inject = (\<lambda>_ _. []),
     propagator_Extract = (\<lambda>_ _ _. ()),
     tracer_Start = (\<lambda>_ _ _. ()),
     context_Background = (),
     answer = (\<lambda>_ _. None),
     clock = (\<lambda>t. int (length t)),
     now_rfc3339 = (\<lambda>_. ''2026-01-01T00:00:00Z''),
     uuid_New = (\<lambda>_. ''0''),
     map_rank = (\<lambda>_ _ _. 0)\<rparr>"

lemma alist_header_get_set:
  "alist_header_get (alist_header_set h k v) k' = (if k' = k then v else alist_header_get h k')"
  by (simp add: alist_header_get_def alist_header_set_def update_conv)

lemma alist_header_keys: "fst ` set (alist_header_set h k v) = insert k (fst ` set h)"
  by (simp add: alist_header_set_def dom_update)

lemma alist_header_ok: "gomap_ok h \<Longrightarrow> gomap_ok (alist_header_set h k v)"
  by (simp add: gomap_ok_def alist_header_set_def distinct_update)

lemma demo_header_laws: "header_laws demo_ext"
  by (simp add: header_laws_def demo_ext_def alist_header_get_set alist_header_keys
      alist_header_ok) (simp add: alist_header_get_def)

lemma demo_subject_law: "subject_law demo_ext"
  by (simp add: subject_law_def demo_ext_def)

lemma demo_ce_names_law: "ce_names_law demo_ext"
  by (simp add: ce_names_law_def ce_keys_def demo_ext_def)

end
