(* ===== verification/Naming.thy ===== *)
theory Naming
  imports Nats_Env
begin

text \<open>
  \<open>naming.go\<close>: the names of streams, subjects and consumers, and the routing key that
  \<open>handleMessage\<close> of \<open>consumer.go\<close> reads back from a subject. The wildcard matching of NATS
  subjects, which decides what a stream captures, is stated as the NATS documentation gives it.
\<close>

section \<open>Definitions\<close>

definition defaultEventStreamName :: string where
  "defaultEventStreamName = ''events''"

definition streamName :: "'e spec_pkg_scheme \<Rightarrow> string \<Rightarrow> string" where
  "streamName E name = spec_NATSStreamName E name"

definition subjectName :: "'e spec_pkg_scheme \<Rightarrow> string \<Rightarrow> string \<Rightarrow> string" where
  "subjectName E stream routingKey = spec_NATSSubject E stream routingKey"

definition filterSubject :: "'e spec_pkg_scheme \<Rightarrow> string \<Rightarrow> string \<Rightarrow> string" where
  "filterSubject E stream routingKey =
     spec_NATSSubject E stream (spec_TranslateWildcard E routingKey)"

definition streamSubjects :: "string \<Rightarrow> string" where
  "streamSubjects stream = stream @ ''.>''"

definition serviceRequestSubject :: "string \<Rightarrow> string \<Rightarrow> string" where
  "serviceRequestSubject service routingKey = service @ ''.request.'' @ routingKey"

definition consumerName :: "string \<Rightarrow> string" where
  "consumerName service = service"

definition consumerNameWithSuffix :: "string \<Rightarrow> string \<Rightarrow> string" where
  "consumerNameWithSuffix service suffix = service @ ''-'' @ suffix"

text \<open>The first lines of \<open>handleMessage\<close>: strip everything up to the first dot.\<close>

definition routing_key_of_subject :: "string \<Rightarrow> string" where
  "routing_key_of_subject subject =
     (case strings_index subject (CHR ''.'') of
        None \<Rightarrow> subject
      | Some idx \<Rightarrow> drop (idx + 1) subject)"

section \<open>Subject matching, as NATS documents it\<close>

text \<open>
  A subject is a list of tokens separated by dots. In a pattern, \<open>*\<close> stands for one token and a
  final \<open>>\<close> for one or more tokens.
\<close>

fun tokens :: "string \<Rightarrow> string list" where
  "tokens [] = [[]]"
| "tokens (c # cs) =
     (if c = CHR ''.'' then [] # tokens cs
      else (case tokens cs of t # ts \<Rightarrow> (c # t) # ts | [] \<Rightarrow> [[c]]))"

fun tokens_match :: "string list \<Rightarrow> string list \<Rightarrow> bool" where
  "tokens_match [] ts \<longleftrightarrow> ts = []"
| "tokens_match (p # ps) [] \<longleftrightarrow> False"
| "tokens_match (p # ps) (t # ts) \<longleftrightarrow>
     (p = ''>'' \<and> ps = []) \<or> ((p = ''*'' \<or> p = t) \<and> tokens_match ps ts)"

definition subject_matches :: "string \<Rightarrow> string \<Rightarrow> bool" where
  "subject_matches pat subject = tokens_match (tokens pat) (tokens subject)"

lemma tokens_not_Nil [simp]: "tokens s \<noteq> []"
  by (induction s) (auto split: list.splits)

lemma tokens_append: "tokens (s @ ''.'' @ t) = tokens s @ tokens t"
proof (induction s)
  case Nil
  then show ?case by simp
next
  case (Cons c s)
  obtain u us where "tokens s = u # us"
    by (cases "tokens s") auto
  with Cons show ?case by simp
qed

lemma tokens_match_append: "ps \<noteq> [] \<Longrightarrow> tokens_match (qs @ ps) (qs @ ts) = tokens_match ps ts"
  by (induction qs) auto

lemma tokens_match_any: "ts \<noteq> [] \<Longrightarrow> tokens_match [''>''] ts"
  by (cases ts) simp_all

section \<open>Wildcards of routing keys, as the package documents them\<close>

text \<open>
  \<open>docs/consumers.md\<close>: in the routing key of a consumer \<open>*\<close> stands for one segment, and a final \<open>>\<close> or,
  as AMQP writes it, a final \<open>#\<close> for any depth.
\<close>

fun key_matches :: "string list \<Rightarrow> string list \<Rightarrow> bool" where
  "key_matches [] ts \<longleftrightarrow> ts = []"
| "key_matches (p # ps) [] \<longleftrightarrow> False"
| "key_matches (p # ps) (t # ts) \<longleftrightarrow>
     ((p = ''>'' \<or> p = ''#'') \<and> ps = []) \<or> ((p = ''*'' \<or> p = t) \<and> key_matches ps ts)"

text \<open>
  \<open>spec.TranslateWildcard\<close> turns the AMQP wildcard into that of NATS and leaves other segments alone
  (\<open>docs/consumers.md\<close>, \<open>naming_test.go\<close>). Nothing is said of a \<open>#\<close> inside a longer segment.
\<close>

definition hash_alone :: "string \<Rightarrow> bool" where
  "hash_alone pattern \<longleftrightarrow> (\<forall>t \<in> set (tokens pattern). CHR ''#'' \<in> set t \<longrightarrow> t = ''#'')"

definition wildcard_law :: "'e spec_pkg_scheme \<Rightarrow> bool" where
  "wildcard_law E \<longleftrightarrow> (\<forall>p. hash_alone p \<longrightarrow>
     tokens (spec_TranslateWildcard E p) = map (\<lambda>t. if t = ''#'' then ''>'' else t) (tokens p))"

text \<open>A key under which a message is published has no segment that is a wildcard for any depth.\<close>

definition literal_key :: "string \<Rightarrow> bool" where
  "literal_key k \<longleftrightarrow> ''>'' \<notin> set (tokens k) \<and> ''#'' \<notin> set (tokens k)"

lemma translated_match:
  "''>'' \<notin> set ts \<Longrightarrow> ''#'' \<notin> set ts \<Longrightarrow>
   tokens_match (map (\<lambda>t. if t = ''#'' then ''>'' else t) ps) ts = key_matches ps ts"
  by (induction ps ts rule: key_matches.induct) auto

lemma tokens_map:
  assumes "\<And>c. f c = CHR ''.'' \<longleftrightarrow> c = CHR ''.''"
  shows "tokens (map f s) = map (map f) (tokens s)"
proof (induction s)
  case (Cons c s)
  then show ?case by (cases "tokens s") (simp_all add: assms)
qed simp

lemma demo_wildcard_law: "wildcard_law demo_ext"
proof -
  let ?f = "\<lambda>c. if c = CHR ''#'' then CHR ''>'' else c"
  have plain: "map ?f t = t" if "CHR ''#'' \<notin> set t" for t
    using that by (induction t) auto
  have "map ?f t = (if t = ''#'' then ''>'' else t)" if "hash_alone p" "t \<in> set (tokens p)" for p t
  proof (cases "CHR ''#'' \<in> set t")
    case True
    with that have "t = ''#''" by (simp add: hash_alone_def)
    then show ?thesis by simp
  next
    case False
    then have "t \<noteq> ''#''" by auto
    with plain [OF False] show ?thesis by simp
  qed
  then have "map (map ?f) (tokens p) = map (\<lambda>t. if t = ''#'' then ''>'' else t) (tokens p)"
    if "hash_alone p" for p
    using that by (intro map_cong refl)
  moreover have "tokens (map ?f p) = map (map ?f) (tokens p)" for p
    by (rule tokens_map) simp
  ultimately show ?thesis by (simp add: wildcard_law_def demo_ext_def)
qed

section \<open>Properties\<close>

lemma streamSubjects_split: "streamSubjects stream = stream @ ''.'' @ ''>''"
  by (simp add: streamSubjects_def)

lemma routing_key_of_subject_append:
  "CHR ''.'' \<notin> set p \<Longrightarrow> routing_key_of_subject (p @ ''.'' @ k) = k"
  using strings_index_append [of "CHR ''.''" p k] by (simp add: routing_key_of_subject_def)

text \<open>
  C33: What consumers receive. Whatever a publisher of a stream sends is captured by that stream: the
  subject \<open>subjectName\<close> builds matches the pattern \<open>streamSubjects\<close> with which the stream is created.
  And the filter of a consumer selects from it exactly the keys that the consumer's routing key
  matches in the documented sense, AMQP's \<open>#\<close> included, for keys without a segment \<open>>\<close> or \<open>#\<close> of their
  own and patterns in which \<open>#\<close> stands alone in its segment.
\<close>

theorem published_subject_captured:
  assumes "subject_law E" and "wildcard_law E" and "hash_alone pattern" and "literal_key k"
  shows "subject_matches (streamSubjects stream) (subjectName E stream k) \<and>
    (subject_matches (filterSubject E stream pattern) (subjectName E stream k)
       \<longleftrightarrow> key_matches (tokens pattern) (tokens k))"
proof -
  have subject: "tokens (subjectName E stream k) = tokens stream @ tokens k"
    using assms(1) tokens_append [of stream k]
    by (simp add: subject_law_def subjectName_def)
  have "tokens (streamSubjects stream) = tokens stream @ [''>'']"
    using tokens_append [of stream "''>''"] by (simp add: streamSubjects_split)
  moreover have "tokens (filterSubject E stream pattern)
      = tokens stream @ map (\<lambda>t. if t = ''#'' then ''>'' else t) (tokens pattern)"
    using assms(1-3) tokens_append [of stream "spec_TranslateWildcard E pattern"]
    by (simp add: filterSubject_def subject_law_def wildcard_law_def)
  ultimately show ?thesis
    using assms(4) by (simp add: subject_matches_def subject tokens_match_any tokens_match_append
        translated_match literal_key_def)
qed

theorem published_subject_captured_witness:
  "subject_matches (streamSubjects ''events'') (subjectName demo_ext ''events'' ''Order.Item.Added'') \<and>
   subject_matches (filterSubject demo_ext ''events'' ''Order.#'')
     (subjectName demo_ext ''events'' ''Order.Item.Added'') \<and>
   \<not> subject_matches (filterSubject demo_ext ''events'' ''Order.*'')
     (subjectName demo_ext ''events'' ''Order.Item.Added'')"
proof -
  have "hash_alone ''Order.#''" "hash_alone ''Order.*''" "literal_key ''Order.Item.Added''"
    by (simp_all add: hash_alone_def literal_key_def)
  with published_subject_captured [OF demo_subject_law demo_wildcard_law,
      where pattern = "''Order.#''" and k = "''Order.Item.Added''" and stream = "''events''"]
    published_subject_captured [OF demo_subject_law demo_wildcard_law,
      where pattern = "''Order.*''" and k = "''Order.Item.Added''" and stream = "''events''"]
  show ?thesis by simp
qed

end
