(* ===== verification/Headers.thy ===== *)
theory Headers
  imports Nats_Env
begin

text \<open>
  \<open>headers.go\<close>: the \<open>Header\<close> pair, the check of user supplied keys, and the conversions between
  the headers of the specification package and NATS headers. Every conversion is a loop over a Go
  map that stores one entry per iteration; the locale \<open>keyed_store\<close> states what such a loop needs
  of the store it writes to, and shows once that its result does not depend on the iteration order.
\<close>

section \<open>Definitions\<close>

record Header =
  h_Key :: string
  h_Value :: string

definition headerService :: string where
  "headerService = ''service''"

definition reservedHeaderKeys :: "string list" where
  "reservedHeaderKeys = [headerService]"

fun reserved_check :: "string list \<Rightarrow> Header \<Rightarrow> go_error option" where
  "reserved_check [] h = None"
| "reserved_check (rh # rhs) h =
     (if rh = h_Key h
      then Some (Plain (''reserved key '' @ rh @ '' used, please change to use another one''))
      else reserved_check rhs h)"

definition validateKey :: "Header \<Rightarrow> go_error option" where
  "validateKey h =
     (if h_Key h = '''' then Some (Known ErrEmptyHeaderKey)
      else reserved_check reservedHeaderKeys h)"

definition toNATSHeaders :: "'x ext \<Rightarrow> (string \<Rightarrow> nat) \<Rightarrow> 'x spec_headers \<Rightarrow> nats_header" where
  "toNATSHeaders E rank h =
     fold (\<lambda>(k, v) nh. case v of AnyString s \<Rightarrow> header_set E nh k s | AnyOther _ \<Rightarrow> nh)
       (range_order rank h) []"

definition fromNATSHeaders :: "'x ext \<Rightarrow> (string \<Rightarrow> nat) \<Rightarrow> nats_header \<Rightarrow> 'x spec_headers" where
  "fromNATSHeaders E rank nh =
     fold (\<lambda>(k, _) h. AList.update k (AnyString (header_get E nh k)) h) (range_order rank nh) []"

section \<open>Stores written by a loop over a map\<close>

text \<open>
  The interface of a store with string keys: \<open>put\<close> writes one key and \<open>look\<close> reads one, a read
  after a write sees the value written, and a write to one key leaves the others alone.
\<close>

locale keyed_store =
  fixes put :: "'m \<Rightarrow> string \<Rightarrow> 'v \<Rightarrow> 'm"
    and look :: "'m \<Rightarrow> string \<Rightarrow> 'o"
    and view :: "'v \<Rightarrow> 'o"
  assumes look_put: "look (put m k v) k' = (if k' = k then view v else look m k')"
begin

lemma look_fold:
  assumes "distinct (map fst kvs)"
  shows "look (fold (\<lambda>(k, v) m. put m k v) kvs m) k
       = (case map_of kvs k of Some v \<Rightarrow> view v | None \<Rightarrow> look m k)"
  using assms
proof (induction kvs arbitrary: m)
  case Nil
  then show ?case by simp
next
  case (Cons kv kvs)
  obtain a b where kv: "kv = (a, b)" by (cases kv)
  with Cons.prems have "map_of kvs a = None"
    by (simp add: map_of_eq_None_iff)
  with kv Cons show ?case
    by (simp add: look_put split: option.split)
qed

lemma look_range:
  assumes "gomap_ok kvs"
  shows "look (fold (\<lambda>(k, v) m. put m k v) (range_order rank kvs) m) k
       = (case map_of kvs k of Some v \<Rightarrow> view v | None \<Rightarrow> look m k)"
proof -
  have "distinct (map fst (range_order rank kvs))"
    using assms by (simp add: gomap_ok_def)
  then show ?thesis
    by (simp add: look_fold assms)
qed

end

text \<open>Go maps are such a store, and so are NATS headers wherever their documented laws hold.\<close>

interpretation gm: keyed_store "\<lambda>m k v. AList.update k v m" map_of Some
  by unfold_locales (simp add: update_conv)

lemma nats_header_store: "header_laws E \<Longrightarrow> keyed_store (header_set E) (header_get E) (\<lambda>v. v)"
  by unfold_locales (simp add: header_get_set)

lemmas nats_header_look_range = keyed_store.look_range [OF nats_header_store]
lemmas nats_header_look_fold = keyed_store.look_fold [OF nats_header_store]

section \<open>Lemmas\<close>

text \<open>A loop that skips some entries is the loop over the entries it keeps.\<close>

definition string_entries :: "'x spec_headers \<Rightarrow> string gomap" where
  "string_entries h = [(k, s). (k, AnyString s) \<leftarrow> h]"

lemma string_entries_Cons [simp]:
  "string_entries ((k, AnyString s) # h) = (k, s) # string_entries h"
  "string_entries ((k, AnyOther x) # h) = string_entries h"
  by (simp_all add: string_entries_def)

lemma string_entries_Nil [simp]: "string_entries [] = []"
  by (simp add: string_entries_def)

lemma set_string_entries: "set (string_entries h) = {(k, s). (k, AnyString s) \<in> set h}"
  by (auto simp: string_entries_def)

lemma fst_string_entries: "fst ` set (string_entries h) \<subseteq> fst ` set h"
  by (force simp: set_string_entries)

lemma distinct_string_entries:
  "distinct (map fst h) \<Longrightarrow> distinct (map fst (string_entries h))"
proof (induction h)
  case Nil
  then show ?case by simp
next
  case (Cons kv h)
  obtain k v where kv: "kv = (k, v)" by (cases kv)
  with Cons fst_string_entries [of h] show ?case
    by (cases v) auto
qed

lemma map_of_string_entries:
  "distinct (map fst h) \<Longrightarrow>
   map_of (string_entries h) k
     = (case map_of h k of Some (AnyString s) \<Rightarrow> Some s | _ \<Rightarrow> None)"
proof (induction h)
  case Nil
  then show ?case by simp
next
  case (Cons kv h)
  obtain k' v where kv: "kv = (k', v)" by (cases kv)
  with Cons.prems have "map_of h k' = None"
    by (simp add: map_of_eq_None_iff)
  with kv Cons show ?case
    by (cases v) auto
qed

lemma toNATSHeaders_fold:
  "fold (\<lambda>(k, v) nh. case v of AnyString s \<Rightarrow> header_set E nh k s | AnyOther _ \<Rightarrow> nh) kvs nh
   = fold (\<lambda>(k, s) nh. header_set E nh k s) (string_entries kvs) nh"
proof (induction kvs arbitrary: nh)
  case Nil
  then show ?case by simp
next
  case (Cons kv kvs)
  obtain k v where "kv = (k, v)" by (cases kv)
  with Cons show ?case by (cases v) simp_all
qed

lemma toNATSHeaders_get:
  assumes "header_laws E" and "gomap_ok h"
  shows "header_get E (toNATSHeaders E rank h) k
       = (case map_of h k of Some (AnyString s) \<Rightarrow> s | _ \<Rightarrow> '''')"
proof -
  have d: "distinct (map fst (range_order rank h))"
    using assms(2) by (simp add: gomap_ok_def)
  have "map_of (string_entries (range_order rank h)) k
      = (case map_of h k of Some (AnyString s) \<Rightarrow> Some s | _ \<Rightarrow> None)"
    by (simp add: map_of_string_entries [OF d] assms(2))
  then show ?thesis
    unfolding toNATSHeaders_def toNATSHeaders_fold
    by (simp add: nats_header_look_fold [OF assms(1) distinct_string_entries [OF d]]
        header_get_Nil [OF assms(1)] split: option.splits any_value.splits)
qed

lemma header_fold_keys:
  "header_laws E \<Longrightarrow>
   fst ` set (fold (\<lambda>(k, s) nh. header_set E nh k s) kvs nh) = fst ` set kvs \<union> fst ` set nh"
  by (induction kvs arbitrary: nh) (simp_all add: header_keys_set case_prod_unfold)

lemma header_fold_ok:
  "header_laws E \<Longrightarrow> gomap_ok nh \<Longrightarrow>
   gomap_ok (fold (\<lambda>(k, s) nh. header_set E nh k s) kvs nh)"
  by (induction kvs arbitrary: nh) (auto simp: header_ok_set)

lemma toNATSHeaders_keys:
  assumes "header_laws E"
  shows "fst ` set (toNATSHeaders E rank h) = fst ` set (string_entries (range_order rank h))"
  unfolding toNATSHeaders_def toNATSHeaders_fold
  by (simp add: header_fold_keys [OF assms])

lemma toNATSHeaders_ok: "header_laws E \<Longrightarrow> gomap_ok (toNATSHeaders E rank h)"
  unfolding toNATSHeaders_def toNATSHeaders_fold
  by (rule header_fold_ok) (simp_all add: gomap_ok_def)

lemma map_of_const_value:
  "map_of (map (\<lambda>(k, v). (k, f k)) kvs) k = (if k \<in> fst ` set kvs then Some (f k) else None)"
  by (induction kvs) auto

lemma fromNATSHeaders_map_of:
  fixes E :: "'x ext"
  assumes "gomap_ok nh"
  shows "map_of (fromNATSHeaders E rank nh) k
       = (if k \<in> fst ` set nh then Some (AnyString (header_get E nh k)) else None)"
proof -
  let ?kvs = "map (\<lambda>(k, v). (k, AnyString (header_get E nh k) :: 'x any_value))
                (range_order rank nh)"
  have fold_eq: "fromNATSHeaders E rank nh = fold (\<lambda>(k, v) h. AList.update k v h) ?kvs []"
    unfolding fromNATSHeaders_def fold_map by (rule fold_cong) auto
  have d: "distinct (map fst ?kvs)"
    using assms by (simp add: gomap_ok_def comp_def case_prod_unfold)
  have "map_of ?kvs k = (if k \<in> fst ` set nh then Some (AnyString (header_get E nh k)) else None)"
    by (simp add: map_of_const_value)
  then show ?thesis
    unfolding fold_eq gm.look_fold [OF d, of "[]" k] by simp
qed

lemma fromNATSHeaders_Nil [simp]: "fromNATSHeaders E rank [] = []"
  by (simp add: fromNATSHeaders_def)

lemma validateKey_eq:
  "validateKey h =
     (if h_Key h = '''' then Some (Known ErrEmptyHeaderKey)
      else if h_Key h = ''service''
        then Some (Plain ''reserved key service used, please change to use another one'')
      else None)"
  by (simp add: validateKey_def reservedHeaderKeys_def headerService_def)

section \<open>Properties\<close>

text \<open>
  C32: Headers survive the way over the wire. Converting specification headers to NATS headers and
  back gives the string valued entries of the original and nothing else, for every iteration order
  of both loops; entries that are not strings are dropped.
\<close>

theorem headers_roundtrip:
  assumes "header_laws E" and "gomap_ok h"
  shows "map_of (fromNATSHeaders E r' (toNATSHeaders E r h)) k
       = (case map_of h k of Some (AnyString s) \<Rightarrow> Some (AnyString s) | _ \<Rightarrow> None)"
proof -
  have d: "distinct (map fst (range_order r h))"
    using assms(2) by (simp add: gomap_ok_def)
  have "k \<in> fst ` set (toNATSHeaders E r h)
      \<longleftrightarrow> map_of (string_entries (range_order r h)) k \<noteq> None"
    by (simp add: toNATSHeaders_keys [OF assms(1)] map_of_eq_None_iff)
  also have "\<dots> \<longleftrightarrow> (\<exists>s. map_of h k = Some (AnyString s))"
    by (simp add: map_of_string_entries [OF d] assms(2) split: option.splits any_value.splits)
  finally show ?thesis
    by (simp add: fromNATSHeaders_map_of toNATSHeaders_ok toNATSHeaders_get assms
        split: option.splits any_value.splits)
qed

theorem headers_roundtrip_witness:
  "map_of (fromNATSHeaders demo_ext (\<lambda>_. 0)
     (toNATSHeaders demo_ext (\<lambda>_. 1) [(''ce-type'', AnyString ''A''), (''n'', AnyOther ())]))
     ''ce-type'' = Some (AnyString ''A'')"
proof -
  have "gomap_ok [(''ce-type'', AnyString ''A''), (''n'', AnyOther ())]"
    by (simp add: gomap_ok_def)
  from headers_roundtrip [OF demo_header_laws this] show ?thesis by simp
qed

end
