(* ===== verification/Metrics.thy ===== *)
theory Metrics
  imports Nats_Env
begin

text \<open>
  \<open>metrics.go\<close>: the Prometheus collectors of the package, the helpers that count events and observe
  durations, the routing key label and the registration of the collectors. A counter or histogram
  update is a call in the trace, so that the value of a counter is the number of its increments
  there.
\<close>

section \<open>The collectors\<close>

definition metricConsumer :: string where
  "metricConsumer = ''consumer''"

definition metricStream :: string where
  "metricStream = ''stream''"

definition metricResult :: string where
  "metricResult = ''result''"

definition metricRoutingKey :: string where
  "metricRoutingKey = ''routing_key''"

definition eventReceivedCounter :: metric_desc where
  "eventReceivedCounter =
     \<lparr>md_Name = ''nats_events_received'', md_Help = ''Count of NATS events received'',
      md_Buckets = [], md_Labels = [metricConsumer, metricRoutingKey]\<rparr>"

definition eventWithoutHandlerCounter :: metric_desc where
  "eventWithoutHandlerCounter =
     \<lparr>md_Name = ''nats_events_without_handler'', md_Help = ''Count of NATS events without a handler'',
      md_Buckets = [], md_Labels = [metricConsumer, metricRoutingKey]\<rparr>"

definition eventNotParsableCounter :: metric_desc where
  "eventNotParsableCounter =
     \<lparr>md_Name = ''nats_events_not_parsable'',
      md_Help = ''Count of NATS events that could not be parsed'',
      md_Buckets = [], md_Labels = [metricConsumer, metricRoutingKey]\<rparr>"

definition eventNakCounter :: metric_desc where
  "eventNakCounter =
     \<lparr>md_Name = ''nats_events_nak'',
      md_Help = ''Count of NATS events that were negatively acknowledged'',
      md_Buckets = [], md_Labels = [metricConsumer, metricRoutingKey]\<rparr>"

definition eventAckCounter :: metric_desc where
  "eventAckCounter =
     \<lparr>md_Name = ''nats_events_ack'', md_Help = ''Count of NATS events that were acknowledged'',
      md_Buckets = [], md_Labels = [metricConsumer, metricRoutingKey]\<rparr>"

definition eventProcessedDuration :: metric_desc where
  "eventProcessedDuration =
     \<lparr>md_Name = ''nats_events_processed_duration'',
      md_Help = ''Milliseconds taken to process an event'',
      md_Buckets = [100, 200, 500, 1000, 3000, 5000, 10000],
      md_Labels = [metricConsumer, metricRoutingKey, metricResult]\<rparr>"

definition eventPublishSucceedCounter :: metric_desc where
  "eventPublishSucceedCounter =
     \<lparr>md_Name = ''nats_events_publish_succeed'',
      md_Help = ''Count of NATS events published successfully'',
      md_Buckets = [], md_Labels = [metricStream, metricRoutingKey]\<rparr>"

definition eventPublishFailedCounter :: metric_desc where
  "eventPublishFailedCounter =
     \<lparr>md_Name = ''nats_events_publish_failed'',
      md_Help = ''Count of NATS events that could not be published'',
      md_Buckets = [], md_Labels = [metricStream, metricRoutingKey]\<rparr>"

definition eventPublishDuration :: metric_desc where
  "eventPublishDuration =
     \<lparr>md_Name = ''nats_events_publish_duration'',
      md_Help = ''Milliseconds taken to publish an event'',
      md_Buckets = [1, 5, 10, 25, 50, 100, 250, 500, 1000],
      md_Labels = [metricStream, metricRoutingKey, metricResult]\<rparr>"

lemmas metric_desc_defs =
  eventReceivedCounter_def eventWithoutHandlerCounter_def eventNotParsableCounter_def
  eventNakCounter_def eventAckCounter_def eventProcessedDuration_def
  eventPublishSucceedCounter_def eventPublishFailedCounter_def eventPublishDuration_def

section \<open>Counting\<close>

definition routingKeyLabel :: "('x, 'w) world_scheme \<Rightarrow> string \<Rightarrow> string" where
  "routingKeyLabel w key =
     (let mapped = routingKeyMapperVal w key
      in if mapped = '''' then ''unknown'' else mapped)"

definition eventReceived ::
  "string \<Rightarrow> string \<Rightarrow> ('x, 'w) world_scheme \<Rightarrow> ('x, 'w) world_scheme" where
  "eventReceived consumer routingKey w =
     emit (CounterInc eventReceivedCounter [consumer, routingKeyLabel w routingKey]) w"

definition eventWithoutHandler ::
  "string \<Rightarrow> string \<Rightarrow> ('x, 'w) world_scheme \<Rightarrow> ('x, 'w) world_scheme" where
  "eventWithoutHandler consumer routingKey w =
     emit (CounterInc eventWithoutHandlerCounter [consumer, routingKeyLabel w routingKey]) w"

definition eventNotParsable ::
  "string \<Rightarrow> string \<Rightarrow> ('x, 'w) world_scheme \<Rightarrow> ('x, 'w) world_scheme" where
  "eventNotParsable consumer routingKey w =
     emit (CounterInc eventNotParsableCounter [consumer, routingKeyLabel w routingKey]) w"

definition eventNak ::
  "string \<Rightarrow> string \<Rightarrow> int \<Rightarrow> ('x, 'w) world_scheme \<Rightarrow> ('x, 'w) world_scheme" where
  "eventNak consumer routingKey ms w =
     (let w = emit (CounterInc eventNakCounter [consumer, routingKeyLabel w routingKey]) w
      in emit (HistogramObserve eventProcessedDuration
           [consumer, routingKeyLabel w routingKey, ''NAK''] ms) w)"

definition eventAck ::
  "string \<Rightarrow> string \<Rightarrow> int \<Rightarrow> ('x, 'w) world_scheme \<Rightarrow> ('x, 'w) world_scheme" where
  "eventAck consumer routingKey ms w =
     (let w = emit (CounterInc eventAckCounter [consumer, routingKeyLabel w routingKey]) w
      in emit (HistogramObserve eventProcessedDuration
           [consumer, routingKeyLabel w routingKey, ''ACK''] ms) w)"

definition eventPublishSucceed ::
  "string \<Rightarrow> string \<Rightarrow> int \<Rightarrow> ('x, 'w) world_scheme \<Rightarrow> ('x, 'w) world_scheme" where
  "eventPublishSucceed stream routingKey ms w =
     (let w = emit (CounterInc eventPublishSucceedCounter [stream, routingKeyLabel w routingKey]) w
      in emit (HistogramObserve eventPublishDuration
           [stream, routingKeyLabel w routingKey, ''OK''] ms) w)"

definition eventPublishFailed ::
  "string \<Rightarrow> string \<Rightarrow> int \<Rightarrow> ('x, 'w) world_scheme \<Rightarrow> ('x, 'w) world_scheme" where
  "eventPublishFailed stream routingKey ms w =
     (let w = emit (CounterInc eventPublishFailedCounter [stream, routingKeyLabel w routingKey]) w
      in emit (HistogramObserve eventPublishDuration
           [stream, routingKeyLabel w routingKey, ''ERROR''] ms) w)"

section \<open>Registration\<close>

record metricsConfig =
  mc_routingKeyMapper :: "string \<Rightarrow> string"

type_synonym MetricsOption = "metricsConfig \<Rightarrow> metricsConfig"

definition WithRoutingKeyMapper :: "(string \<Rightarrow> string) \<Rightarrow> MetricsOption" where
  "WithRoutingKeyMapper fn cfg = cfg\<lparr>mc_routingKeyMapper := fn\<rparr>"

definition collectors :: "metric_desc list" where
  "collectors =
     [eventReceivedCounter, eventAckCounter, eventNakCounter, eventWithoutHandlerCounter,
      eventNotParsableCounter, eventProcessedDuration, eventPublishSucceedCounter,
      eventPublishFailedCounter, eventPublishDuration]"

fun register_collectors ::
  "'x ext \<Rightarrow> metric_desc list \<Rightarrow> ('x, 'w) world_scheme \<Rightarrow> go_error option \<times> ('x, 'w) world_scheme"
where
  "register_collectors E [] w = (None, w)"
| "register_collectors E (c # cs) w =
     (case perform E (RegisterCollector c) w of
        (Some err, w) \<Rightarrow>
          if \<not> errors_is err AlreadyRegisteredError then (Some err, w)
          else register_collectors E cs w
      | (None, w) \<Rightarrow> register_collectors E cs w)"

definition InitMetrics ::
  "'x ext \<Rightarrow> MetricsOption list \<Rightarrow> ('x, 'w) world_scheme \<Rightarrow> go_error option \<times> ('x, 'w) world_scheme"
where
  "InitMetrics E opts w =
     (let cfg = fold (\<lambda>opt cfg. opt cfg) opts \<lparr>mc_routingKeyMapper = (\<lambda>s. s)\<rparr>
      in register_collectors E collectors (w\<lparr>routingKeyMapperVal := mc_routingKeyMapper cfg\<rparr>))"

section \<open>Lemmas\<close>

lemma routingKeyLabel_emit [simp]: "routingKeyLabel (emit c w) k = routingKeyLabel w k"
  by (simp add: routingKeyLabel_def)

lemma trace_event_helpers [trace_simps, simp]:
  "trace (eventReceived c k w) = trace w @ [CounterInc eventReceivedCounter [c, routingKeyLabel w k]]"
  "trace (eventWithoutHandler c k w)
     = trace w @ [CounterInc eventWithoutHandlerCounter [c, routingKeyLabel w k]]"
  "trace (eventNotParsable c k w)
     = trace w @ [CounterInc eventNotParsableCounter [c, routingKeyLabel w k]]"
  "trace (eventNak c k ms w)
     = trace w @ [CounterInc eventNakCounter [c, routingKeyLabel w k],
                  HistogramObserve eventProcessedDuration [c, routingKeyLabel w k, ''NAK''] ms]"
  "trace (eventAck c k ms w)
     = trace w @ [CounterInc eventAckCounter [c, routingKeyLabel w k],
                  HistogramObserve eventProcessedDuration [c, routingKeyLabel w k, ''ACK''] ms]"
  "trace (eventPublishSucceed c k ms w)
     = trace w @ [CounterInc eventPublishSucceedCounter [c, routingKeyLabel w k],
                  HistogramObserve eventPublishDuration [c, routingKeyLabel w k, ''OK''] ms]"
  "trace (eventPublishFailed c k ms w)
     = trace w @ [CounterInc eventPublishFailedCounter [c, routingKeyLabel w k],
                  HistogramObserve eventPublishDuration [c, routingKeyLabel w k, ''ERROR''] ms]"
  by (simp_all add: eventReceived_def eventWithoutHandler_def eventNotParsable_def eventNak_def
      eventAck_def eventPublishSucceed_def eventPublishFailed_def Let_def)

lemma mapper_event_helpers [trace_simps, simp]:
  "routingKeyMapperVal (eventReceived c k w) = routingKeyMapperVal w"
  "routingKeyMapperVal (eventWithoutHandler c k w) = routingKeyMapperVal w"
  "routingKeyMapperVal (eventNotParsable c k w) = routingKeyMapperVal w"
  "routingKeyMapperVal (eventNak c k ms w) = routingKeyMapperVal w"
  "routingKeyMapperVal (eventAck c k ms w) = routingKeyMapperVal w"
  "routingKeyMapperVal (eventPublishSucceed c k ms w) = routingKeyMapperVal w"
  "routingKeyMapperVal (eventPublishFailed c k ms w) = routingKeyMapperVal w"
  by (simp_all add: eventReceived_def eventWithoutHandler_def eventNotParsable_def eventNak_def
      eventAck_def eventPublishSucceed_def eventPublishFailed_def Let_def)

text \<open>The number of increments of a counter with given label values.\<close>

definition counter_value :: "metric_desc \<Rightarrow> string list \<Rightarrow> 'x call list \<Rightarrow> nat" where
  "counter_value d ls t = length (filter (\<lambda>c. c = CounterInc d ls) t)"

text \<open>
  \<open>WithLabelValues\<close> panics unless it gets one value per label. A call is well labelled when it does
  and the value of the routing key label is not empty.
\<close>

definition well_labelled :: "metric_desc \<Rightarrow> string list \<Rightarrow> bool" where
  "well_labelled d ls \<longleftrightarrow> length ls = length (md_Labels d) \<and>
     list_all (\<lambda>(name, value). name = metricRoutingKey \<longrightarrow> value \<noteq> '''') (zip (md_Labels d) ls)"

fun labels_match :: "'x call \<Rightarrow> bool" where
  "labels_match (CounterInc d ls) \<longleftrightarrow> well_labelled d ls"
| "labels_match (HistogramObserve d ls v) \<longleftrightarrow> well_labelled d ls"
| "labels_match _ \<longleftrightarrow> True"

lemma routingKeyLabel_not_empty [simp]: "routingKeyLabel w k \<noteq> ''''"
  by (simp add: routingKeyLabel_def Let_def)

lemma well_labelled_helpers [simp]:
  "d \<in> {eventReceivedCounter, eventWithoutHandlerCounter, eventNotParsableCounter, eventNakCounter,
     eventAckCounter, eventPublishSucceedCounter, eventPublishFailedCounter}
   \<Longrightarrow> well_labelled d [c, routingKeyLabel w k]"
  "d \<in> {eventProcessedDuration, eventPublishDuration}
   \<Longrightarrow> well_labelled d [c, routingKeyLabel w k, result]"
  by (auto simp: well_labelled_def metric_desc_defs metricRoutingKey_def metricResult_def
      metricConsumer_def metricStream_def)

lemma collectors_distinct: "distinct (map md_Name collectors)"
  by (simp add: collectors_def metric_desc_defs)

lemma register_collectors_mapper [simp]:
  "routingKeyMapperVal (snd (register_collectors E cs w)) = routingKeyMapperVal w"
  by (induction cs arbitrary: w) (simp_all add: perform_def split: option.split)

text \<open>
  Registering stops at the first answer that is an error other than a collector being registered
  already.
\<close>

definition harmless :: "go_error option \<Rightarrow> bool" where
  "harmless r \<longleftrightarrow> (case r of None \<Rightarrow> True | Some e \<Rightarrow> errors_is e AlreadyRegisteredError)"

lemma register_collectors_path:
  "\<exists>n \<le> length cs. trace (snd (register_collectors E cs w)) = trace w @ map RegisterCollector (take n cs) \<and>
     (case fst (register_collectors E cs w) of
        None \<Rightarrow> n = length cs \<and>
          (\<forall>i < n. harmless (answer E (trace w @ map RegisterCollector (take i cs)) (RegisterCollector (cs ! i))))
      | Some e \<Rightarrow> \<exists>m. n = Suc m \<and> \<not> harmless (Some e) \<and>
          answer E (trace w @ map RegisterCollector (take m cs)) (RegisterCollector (cs ! m)) = Some e \<and>
          (\<forall>i < m. harmless (answer E (trace w @ map RegisterCollector (take i cs)) (RegisterCollector (cs ! i)))))"
proof (induction cs arbitrary: w)
  case Nil
  then show ?case by simp
next
  case (Cons c cs)
  let ?a = "answer E (trace w) (RegisterCollector c)"
  let ?w = "emit (RegisterCollector c) w"
  show ?case
  proof (cases "harmless ?a")
    case True
    then have eq: "register_collectors E (c # cs) w = register_collectors E cs ?w"
      by (auto simp: perform_def harmless_def split: option.splits)
    from Cons.IH [of ?w] obtain n where n: "n \<le> length cs"
      "trace (snd (register_collectors E cs ?w)) = trace ?w @ map RegisterCollector (take n cs)"
      "case fst (register_collectors E cs ?w) of
        None \<Rightarrow> n = length cs \<and>
          (\<forall>i < n. harmless (answer E (trace ?w @ map RegisterCollector (take i cs)) (RegisterCollector (cs ! i))))
      | Some e \<Rightarrow> \<exists>m. n = Suc m \<and> \<not> harmless (Some e) \<and>
          answer E (trace ?w @ map RegisterCollector (take m cs)) (RegisterCollector (cs ! m)) = Some e \<and>
          (\<forall>i < m. harmless (answer E (trace ?w @ map RegisterCollector (take i cs)) (RegisterCollector (cs ! i))))"
      by blast
    with True show ?thesis
      unfolding eq by (intro exI [of _ "Suc n"]) (auto simp: less_Suc_eq_0_disj split: option.splits)
  next
    case False
    then obtain e where "?a = Some e" "\<not> errors_is e AlreadyRegisteredError"
      by (auto simp: harmless_def split: option.splits)
    then show ?thesis
      by (intro exI [of _ 1]) (simp add: perform_def harmless_def)
  qed
qed

section \<open>Properties\<close>

text \<open>
  C38: \<open>InitMetrics\<close> on every path. The collectors are registered one by one, in a fixed order; an
  answer that a collector is registered already is no error, so \<open>InitMetrics\<close> can be repeated; any
  other error ends the registration and is returned. It returns no error exactly after all nine were
  tried. From then on the labels follow the mapper of the last option, the identity without one,
  whether the registration succeeded or not, and no label is empty.
\<close>

theorem InitMetrics_paths:
  "\<exists>n \<le> 9. let (r, w') = InitMetrics E opts w;
      ask = (\<lambda>i. answer E (trace w @ map RegisterCollector (take i collectors))
                   (RegisterCollector (collectors ! i)));
      f = mc_routingKeyMapper (fold (\<lambda>opt. opt) opts \<lparr>mc_routingKeyMapper = (\<lambda>s. s)\<rparr>) in
    trace w' = trace w @ map RegisterCollector (take n collectors) \<and>
    (case r of
       None \<Rightarrow> n = 9 \<and> list_all (\<lambda>i. harmless (ask i)) [0..<9]
     | Some e \<Rightarrow> 0 < n \<and> ask (n - 1) = Some e \<and> \<not> errors_is e AlreadyRegisteredError \<and>
         list_all (\<lambda>i. harmless (ask i)) [0..<n - 1]) \<and>
    (\<forall>k. routingKeyLabel w' k = (if f k = '''' then ''unknown'' else f k))"
proof -
  let ?f = "mc_routingKeyMapper (fold (\<lambda>opt. opt) opts \<lparr>mc_routingKeyMapper = (\<lambda>s. s)\<rparr>)"
  let ?w = "w\<lparr>routingKeyMapperVal := ?f\<rparr>"
  have run: "InitMetrics E opts w = register_collectors E collectors ?w"
    by (simp add: InitMetrics_def)
  have len: "length collectors = 9" by (simp add: collectors_def)
  have "\<forall>k. routingKeyLabel (snd (register_collectors E collectors ?w)) k
      = (if ?f k = '''' then ''unknown'' else ?f k)"
    by (simp add: routingKeyLabel_def Let_def)
  moreover from register_collectors_path [of collectors E ?w] obtain n where n: "n \<le> length collectors"
    "trace (snd (register_collectors E collectors ?w)) = trace ?w @ map RegisterCollector (take n collectors)"
    "case fst (register_collectors E collectors ?w) of
        None \<Rightarrow> n = length collectors \<and>
          (\<forall>i < n. harmless (answer E (trace ?w @ map RegisterCollector (take i collectors))
             (RegisterCollector (collectors ! i))))
      | Some e \<Rightarrow> \<exists>m. n = Suc m \<and> \<not> harmless (Some e) \<and>
          answer E (trace ?w @ map RegisterCollector (take m collectors))
             (RegisterCollector (collectors ! m)) = Some e \<and>
          (\<forall>i < m. harmless (answer E (trace ?w @ map RegisterCollector (take i collectors))
             (RegisterCollector (collectors ! i))))"
    by blast
  ultimately show ?thesis
    unfolding run case_prod_unfold Let_def
    by (intro exI [of _ n] conjI)
      (auto simp: len list_all_iff harmless_def [of "Some e" for e] split: option.splits)
qed

end
