(* ===== verification/Tracing.thy ===== *)
theory Tracing
  imports Headers
begin

text \<open>
  \<open>tracing.go\<close>: tracers, span attributes, span names, and the propagation of the trace context
  through message headers. Spans are calls in the trace; contexts, tracers and propagators are
  opaque.
\<close>

section \<open>Definitions\<close>

definition tracerName :: string where
  "tracerName = ''github.com/sparetimecoders/go-messaging-nats''"

definition attrMessagingSystem :: attribute where
  "attrMessagingSystem = (''messaging.system'', AttrString ''nats'')"

definition attrMessagingOperationKey :: string where
  "attrMessagingOperationKey = ''messaging.operation''"

definition attrMessagingDestKey :: string where
  "attrMessagingDestKey = ''messaging.destination.name''"

definition attrMessagingRoutingKey :: string where
  "attrMessagingRoutingKey = ''messaging.nats.subject''"

definition attrMessagingMessageID :: string where
  "attrMessagingMessageID = ''messaging.message.id''"

definition attrMessagingBodySize :: string where
  "attrMessagingBodySize = ''messaging.message.body.size''"

definition attrMessagingClientID :: string where
  "attrMessagingClientID = ''messaging.client_id''"

definition attrMessagingConsumer :: string where
  "attrMessagingConsumer = ''messaging.destination.subscription''"

definition tracerFromProvider :: "'x ext \<Rightarrow> 'x option \<Rightarrow> 'x" where
  "tracerFromProvider E provider =
     provider_Tracer E
       (case provider of None \<Rightarrow> otel_GetTracerProvider E | Some p \<Rightarrow> p) tracerName"

definition consumerSpanAttributes ::
  "'x delivery_info \<Rightarrow> string \<Rightarrow> string \<Rightarrow> nat \<Rightarrow> attribute list" where
  "consumerSpanAttributes info serviceName messageID bodySize =
     [attrMessagingSystem,
      (attrMessagingOperationKey, AttrString ''receive''),
      (attrMessagingDestKey, AttrString (di_Source info)),
      (attrMessagingRoutingKey, AttrString (di_Key info)),
      (attrMessagingConsumer, AttrString (di_Destination info)),
      (attrMessagingBodySize, AttrInt (int bodySize)),
      (attrMessagingClientID, AttrString serviceName)]
     @ (if messageID \<noteq> '''' then [(attrMessagingMessageID, AttrString messageID)] else [])"

definition publishSpanAttributes :: "string \<Rightarrow> string \<Rightarrow> string \<Rightarrow> attribute list" where
  "publishSpanAttributes stream subject serviceName =
     [attrMessagingSystem,
      (attrMessagingOperationKey, AttrString ''publish''),
      (attrMessagingDestKey, AttrString stream),
      (attrMessagingRoutingKey, AttrString subject),
      (attrMessagingClientID, AttrString serviceName)]"

definition defaultPublishSpanName :: "string \<Rightarrow> string \<Rightarrow> string" where
  "defaultPublishSpanName stream routingKey = ''publish '' @ routingKey"

definition propagatorOrGlobal :: "'x ext \<Rightarrow> 'x option \<Rightarrow> 'x" where
  "propagatorOrGlobal E p = (case p of Some q \<Rightarrow> q | None \<Rightarrow> otel_GetTextMapPropagator E)"

definition injectToHeaders ::
  "'x ext \<Rightarrow> (string \<Rightarrow> nat) \<Rightarrow> 'x \<Rightarrow> nats_header \<Rightarrow> 'x option \<Rightarrow> nats_header" where
  "injectToHeaders E rank ctx headers p =
     fold (\<lambda>(k, v) h. header_set E h k v)
       (range_order rank (propagator_Inject E (propagatorOrGlobal E p) ctx)) headers"

definition extractToContext ::
  "'x ext \<Rightarrow> (string \<Rightarrow> nat) \<Rightarrow> 'x \<Rightarrow> nats_header \<Rightarrow> 'x option \<Rightarrow> 'x" where
  "extractToContext E rank ctx headers p =
     (let carrier = fold (\<lambda>(k, _) c. AList.update k (header_get E headers k) c)
                      (range_order rank headers) []
      in propagator_Extract E (propagatorOrGlobal E p) ctx carrier)"

section \<open>Lemmas\<close>

text \<open>A propagator writes each of its keys once.\<close>

definition inject_law :: "'x ext \<Rightarrow> bool" where
  "inject_law E \<longleftrightarrow> (\<forall>p ctx. gomap_ok (propagator_Inject E p ctx))"

lemma injectToHeaders_get:
  assumes "header_laws E" and "inject_law E"
  shows "header_get E (injectToHeaders E rank ctx h p) k
       = (case map_of (propagator_Inject E (propagatorOrGlobal E p) ctx) k of
            Some v \<Rightarrow> v | None \<Rightarrow> header_get E h k)"
  unfolding injectToHeaders_def
  by (rule nats_header_look_range [OF assms(1)]) (use assms(2) in \<open>simp add: inject_law_def\<close>)

lemma demo_inject_law: "inject_law demo_ext"
  by (simp add: inject_law_def demo_ext_def gomap_ok_def)

end
