(* ===== verification/Notifications.thy ===== *)
theory Notifications
  imports Nats_Env
begin

text \<open>
  \<open>notifications.go\<close>: the notifications a consumer sends about the outcome of a handler. The world
  of the consumers extends the trace with the application state that handlers read and change, and
  with the notification channels, addressed by number; a \<open>nil\<close> channel is \<open>None\<close>.
\<close>

record ('x, 'app) cworld = "'x world" +
  app :: 'app
  nchans :: "nat \<Rightarrow> 'x notification chan"
  echans :: "nat \<Rightarrow> 'x error_notification chan"

definition notifyEventHandlerSucceed ::
  "nat option \<Rightarrow> 'x delivery_info \<Rightarrow> int \<Rightarrow> ('x, 'app, 'w) cworld_scheme
   \<Rightarrow> ('x, 'app, 'w) cworld_scheme option"
where
  "notifyEventHandlerSucceed ch info took w =
     (case ch of
        None \<Rightarrow> Some w
      | Some i \<Rightarrow>
          do {
            c \<leftarrow> try_send \<lparr>nt_DeliveryInfo = info, nt_Source = NotificationSourceConsumer,
                           nt_Duration = took\<rparr> (nchans w i);
            Some (w\<lparr>nchans := (nchans w)(i := c)\<rparr>)
          })"

definition notifyEventHandlerFailed ::
  "nat option \<Rightarrow> 'x delivery_info \<Rightarrow> int \<Rightarrow> go_error \<Rightarrow> ('x, 'app, 'w) cworld_scheme
   \<Rightarrow> ('x, 'app, 'w) cworld_scheme option"
where
  "notifyEventHandlerFailed ch info took err w =
     (case ch of
        None \<Rightarrow> Some w
      | Some i \<Rightarrow>
          do {
            c \<leftarrow> try_send \<lparr>en_Error = err, en_DeliveryInfo = info,
                           en_Source = NotificationSourceConsumer, en_Duration = took\<rparr>
                  (echans w i);
            Some (w\<lparr>echans := (echans w)(i := c)\<rparr>)
          })"

text \<open>
  Sending cannot panic as long as the channels a consumer may send on are open; the channels
  themselves respect their capacity.
\<close>

definition channels_open :: "nat option \<Rightarrow> nat option \<Rightarrow> ('x, 'app, 'w) cworld_scheme \<Rightarrow> bool" where
  "channels_open nch ech w \<longleftrightarrow>
     (\<forall>i. nch = Some i \<longrightarrow> \<not> ch_closed (nchans w i)) \<and>
     (\<forall>i. ech = Some i \<longrightarrow> \<not> ch_closed (echans w i))"

definition channels_ok :: "('x, 'app, 'w) cworld_scheme \<Rightarrow> bool" where
  "channels_ok w \<longleftrightarrow> (\<forall>i. chan_ok (nchans w i)) \<and> (\<forall>i. chan_ok (echans w i))"

section \<open>Lemmas\<close>

lemma emit_cworld [trace_simps, simp]:
  "app (emit c w) = app w" "nchans (emit c w) = nchans w" "echans (emit c w) = echans w"
  by (simp_all add: emit_def)

lemma log_at_cworld [trace_simps, simp]:
  "app (log_at l s w) = app w" "nchans (log_at l s w) = nchans w"
  "echans (log_at l s w) = echans w"
  by (simp_all add: log_at_def)

lemma notify_succeedE:
  assumes "notifyEventHandlerSucceed ch info took w = Some w'"
  obtains (Nil) "ch = None" "w' = w"
    | (Sent) i n c where "ch = Some i" "try_send n (nchans w i) = Some c"
        "w' = w\<lparr>nchans := (nchans w)(i := c)\<rparr>"
  using assms by (auto simp: notifyEventHandlerSucceed_def bind_eq_Some_conv split: option.splits)

lemma notify_failedE:
  assumes "notifyEventHandlerFailed ch info took err w = Some w'"
  obtains (Nil) "ch = None" "w' = w"
    | (Sent) i n c where "ch = Some i" "try_send n (echans w i) = Some c"
        "w' = w\<lparr>echans := (echans w)(i := c)\<rparr>"
  using assms by (auto simp: notifyEventHandlerFailed_def bind_eq_Some_conv split: option.splits)

lemma notify_succeed_frame:
  assumes "notifyEventHandlerSucceed ch info took w = Some w'"
  shows "trace w' = trace w" "app w' = app w" "echans w' = echans w"
    "routingKeyMapperVal w' = routingKeyMapperVal w"
    "ch_closed (nchans w' i) = ch_closed (nchans w i)"
  using assms by (cases rule: notify_succeedE; simp add: try_send_closed)+

lemma notify_failed_frame:
  assumes "notifyEventHandlerFailed ch info took err w = Some w'"
  shows "trace w' = trace w" "app w' = app w" "nchans w' = nchans w"
    "routingKeyMapperVal w' = routingKeyMapperVal w"
    "ch_closed (echans w' i) = ch_closed (echans w i)"
  using assms by (cases rule: notify_failedE; simp add: try_send_closed)+

lemma notify_succeed_defined:
  assumes "channels_open ch ech w"
  shows "\<exists>w'. notifyEventHandlerSucceed ch info took w = Some w'"
proof (cases ch)
  case None
  then show ?thesis by (simp add: notifyEventHandlerSucceed_def)
next
  case (Some i)
  with assms have "\<not> ch_closed (nchans w i)"
    by (simp add: channels_open_def)
  with Some show ?thesis
    by (simp add: notifyEventHandlerSucceed_def try_send_def)
qed

lemma notify_failed_defined:
  assumes "channels_open nch ch w"
  shows "\<exists>w'. notifyEventHandlerFailed ch info took err w = Some w'"
proof (cases ch)
  case None
  then show ?thesis by (simp add: notifyEventHandlerFailed_def)
next
  case (Some i)
  with assms have "\<not> ch_closed (echans w i)"
    by (simp add: channels_open_def)
  with Some show ?thesis
    by (simp add: notifyEventHandlerFailed_def try_send_def)
qed

lemma notify_succeed_ok:
  assumes "notifyEventHandlerSucceed ch info took w = Some w'" and "channels_ok w"
  shows "channels_ok w'"
  using assms by (cases rule: notify_succeedE) (auto simp: channels_ok_def dest: try_send_ok [rotated])

lemma notify_failed_ok:
  assumes "notifyEventHandlerFailed ch info took err w = Some w'" and "channels_ok w"
  shows "channels_ok w'"
  using assms by (cases rule: notify_failedE) (auto simp: channels_ok_def dest: try_send_ok [rotated])

text \<open>
  What a notification does to a channel: it is the newest value if a receiver waits or the buffer has
  room, and is dropped otherwise, the channel then being left as it was. A \<open>nil\<close> channel gets nothing,
  and no channel but the one named changes.
\<close>

definition offered :: "'a \<Rightarrow> 'a chan \<Rightarrow> 'a chan \<Rightarrow> bool" where
  "offered v ch ch' \<longleftrightarrow>
     (if 0 < ch_waiting ch \<or> length (ch_buf ch) < ch_cap ch
      then chan_values ch' = chan_values ch @ [v] else ch' = ch)"

definition offered_at :: "nat option \<Rightarrow> 'a \<Rightarrow> (nat \<Rightarrow> 'a chan) \<Rightarrow> (nat \<Rightarrow> 'a chan) \<Rightarrow> bool" where
  "offered_at at v chs chs' \<longleftrightarrow>
     (case at of
        None \<Rightarrow> chs' = chs
      | Some i \<Rightarrow> offered v (chs i) (chs' i) \<and> (\<forall>j. j \<noteq> i \<longrightarrow> chs' j = chs j))"

lemma try_send_offered: "chan_ok ch \<Longrightarrow> try_send v ch = Some ch' \<Longrightarrow> offered v ch ch'"
  using try_send_values [of ch v ch'] by (auto simp: offered_def try_send_def split: if_splits)

lemma notify_succeed_offered:
  assumes "channels_ok w" and "notifyEventHandlerSucceed ch info took w = Some w'"
  shows "offered_at ch \<lparr>nt_DeliveryInfo = info, nt_Source = NotificationSourceConsumer,
    nt_Duration = took\<rparr> (nchans w) (nchans w')"
  using assms by (auto simp: notifyEventHandlerSucceed_def offered_at_def channels_ok_def
      bind_eq_Some_conv intro: try_send_offered split: option.splits)

lemma notify_failed_offered:
  assumes "channels_ok w" and "notifyEventHandlerFailed ch info took err w = Some w'"
  shows "offered_at ch \<lparr>en_Error = err, en_DeliveryInfo = info, en_Source = NotificationSourceConsumer,
    en_Duration = took\<rparr> (echans w) (echans w')"
  using assms by (auto simp: notifyEventHandlerFailed_def offered_at_def channels_ok_def
      bind_eq_Some_conv intro: try_send_offered split: option.splits)

section \<open>A concrete world\<close>

definition demo_chan :: "nat \<Rightarrow> 'a chan" where
  "demo_chan n = \<lparr>ch_cap = n, ch_buf = [], ch_waiting = 0, ch_handed = [], ch_closed = False\<rparr>"

lemma demo_chan_simps:
  "ch_cap (demo_chan n) = n" "ch_buf (demo_chan n) = []" "ch_waiting (demo_chan n) = 0"
  "\<not> ch_closed (demo_chan n)" "chan_values (demo_chan n) = []"
  by (simp_all add: demo_chan_def chan_values_def)

definition demo_cworld :: "(unit, nat) cworld" where
  "demo_cworld = \<lparr>trace = [], routingKeyMapperVal = (\<lambda>s. s), app = 0,
                  nchans = (\<lambda>_. demo_chan 1), echans = (\<lambda>_. demo_chan 0)\<rparr>"

lemma demo_channels_ok: "channels_ok demo_cworld"
  by (simp add: channels_ok_def chan_ok_def demo_cworld_def demo_chan_def)

end
