(* ===== verification/Go_Json.thy ===== *)
theory Go_Json
  imports Go_Prelude
begin

text \<open>
  What \<open>json.Marshal\<close> of the standard library writes for the one value of a fixed type that the
  transport encodes itself, \<open>map[string]string{"error": err.Error()}\<close>: the error replies of
  \<open>handleCoreMessage\<close> (\<open>consumer.go\<close>) and of \<open>startRequestResponseConsumer\<close>
  (\<open>request_response.go\<close>). Strings are lists of bytes; quotes, backslashes, control characters and
  the characters \<open><\<close>, \<open>>\<close>, \<open>&\<close> are escaped, the line separators U+2028 and U+2029 too, and bytes
  that are not UTF-8 are replaced.
\<close>

section \<open>Encoding\<close>

abbreviation backslash :: char where
  "backslash \<equiv> CHR 0x5C"

abbreviation quote :: char where
  "quote \<equiv> CHR 0x22"

abbreviation byte :: "char \<Rightarrow> nat" where
  "byte c \<equiv> of_char c"

definition hex_digit :: "nat \<Rightarrow> char" where
  "hex_digit n = ''0123456789abcdef'' ! n"

definition json_escape_char :: "char \<Rightarrow> string" where
  "json_escape_char c =
     (if c = backslash \<or> c = quote then [backslash, c]
      else if c = CHR 0x08 then [backslash, CHR ''b'']
      else if c = CHR 0x0C then [backslash, CHR ''f'']
      else if c = CHR 0x0A then [backslash, CHR ''n'']
      else if c = CHR 0x0D then [backslash, CHR ''r'']
      else if c = CHR 0x09 then [backslash, CHR ''t'']
      else if byte c < 32 \<or> c = CHR ''<'' \<or> c = CHR ''>'' \<or> c = CHR ''&''
        then [backslash, CHR ''u'', CHR ''0'', CHR ''0'',
              hex_digit (byte c div 16), hex_digit (byte c mod 16)]
      else [c])"

definition cont_byte :: "nat \<Rightarrow> nat \<Rightarrow> nat \<Rightarrow> bool" where
  "cont_byte lo hi b \<longleftrightarrow> lo \<le> b \<and> b \<le> hi"

text \<open>The length of the UTF-8 sequence at the head of a list of bytes, if it is a valid one.\<close>

fun utf8_len :: "nat list \<Rightarrow> nat option" where
  "utf8_len (a # b # bs) =
     (if 0xC2 \<le> a \<and> a \<le> 0xDF then (if cont_byte 0x80 0xBF b then Some 2 else None)
      else if 0xE0 \<le> a \<and> a \<le> 0xEF then
        (let lo = (if a = 0xE0 then 0xA0 else 0x80); hi = (if a = 0xED then 0x9F else 0xBF)
         in case bs of
              c # _ \<Rightarrow> if cont_byte lo hi b \<and> cont_byte 0x80 0xBF c then Some 3 else None
            | [] \<Rightarrow> None)
      else if 0xF0 \<le> a \<and> a \<le> 0xF4 then
        (let lo = (if a = 0xF0 then 0x90 else 0x80); hi = (if a = 0xF4 then 0x8F else 0xBF)
         in case bs of
              c # d # _ \<Rightarrow>
                if cont_byte lo hi b \<and> cont_byte 0x80 0xBF c \<and> cont_byte 0x80 0xBF d
                then Some 4 else None
            | _ \<Rightarrow> None)
      else None)"
| "utf8_len _ = None"

text \<open>A multi-byte sequence: the two line separators are escaped, any other is copied.\<close>

definition json_escape_rune :: "string \<Rightarrow> string" where
  "json_escape_rune r =
     (if r = [CHR 0xE2, CHR 0x80, CHR 0xA8] then backslash # ''u2028''
      else if r = [CHR 0xE2, CHR 0x80, CHR 0xA9] then backslash # ''u2029''
      else r)"

function json_body :: "string \<Rightarrow> string" where
  "json_body [] = []"
| "json_body (c # cs) =
     (if byte c < 128 then json_escape_char c @ json_body cs
      else case utf8_len (map byte (c # cs)) of
             None \<Rightarrow> (backslash # ''ufffd'') @ json_body cs
           | Some n \<Rightarrow> json_escape_rune (take n (c # cs)) @ json_body (drop (n - 1) cs))"
  by pat_completeness auto
termination
  by (relation "measure length") auto

definition json_string :: "string \<Rightarrow> string" where
  "json_string s = [quote] @ json_body s @ [quote]"

definition json_error_object :: "string \<Rightarrow> string" where
  "json_error_object text =
     ''{'' @ json_string ''error'' @ '':'' @ json_string text @ ''}''"

end
