(* ===== verification/Handlers.thy ===== *)
theory Handlers
  imports Headers Notifications
begin

text \<open>
  \<open>handler.go\<close>, \<open>routingkey_handlers.go\<close> and \<open>TypeMappingHandler\<close> of \<open>setup_consumer.go\<close>: typed
  event handlers, the wrapping that makes them untyped, and the table from routing key patterns to
  wrapped handlers. A handler is a function of its context, its event and the application state; it
  returns an error or \<open>nil\<close> and a new application state, or panics (\<open>None\<close>).

  The locale \<open>dispatch_table\<close> is the contract between that table and the consumers that use it.
\<close>

section \<open>Typed handlers\<close>

record ('x, 't) ConsumableEvent =
  ce_Metadata :: 'x
  ce_DeliveryInfo :: "'x delivery_info"
  ce_Payload :: 't

type_synonym ('x, 't, 'app) EventHandler =
  "'x \<Rightarrow> ('x, 't) ConsumableEvent \<Rightarrow> 'app \<Rightarrow> (go_error option \<times> 'app) option"

type_synonym ('x, 'app) wrappedHandler =
  "'x \<Rightarrow> 'x unmarshalEvent \<Rightarrow> 'app \<Rightarrow> (go_error option \<times> 'app) option"

text \<open>
  What the code asks of the type parameter \<open>T\<close> of a handler: whether \<open>reflect.TypeOf\<close> of its zero
  value is \<open>nil\<close> (\<open>T\<close> is an interface type), its name, the type assertion
  \<open>any(raw).(T)\<close> (\<open>None\<close> where it panics) and \<open>json.Unmarshal\<close> into a value of the type.
\<close>

record 't go_type =
  ty_IsInterface :: bool
  ty_String :: string
  ty_AssertRaw :: "string \<Rightarrow> 't option"
  ty_Unmarshal :: "string \<Rightarrow> go_error + 't"

definition newWrappedHandler ::
  "'x ext \<Rightarrow> 't go_type \<Rightarrow> ('x, 't, 'app) EventHandler \<Rightarrow> ('x, 'app) wrappedHandler" where
  "newWrappedHandler E T handler =
     (if ty_IsInterface T \<or> ty_String T = ''json.RawMessage'' then
        (\<lambda>ctx event s.
           do {
             payload \<leftarrow> ty_AssertRaw T (ue_Payload event);
             handler ctx
               \<lparr>ce_Metadata = ue_Metadata event, ce_DeliveryInfo = ue_DeliveryInfo event,
                ce_Payload = payload\<rparr> s
           })
      else
        (\<lambda>ctx event s.
           case ty_Unmarshal T (ue_Payload event) of
             Inl err \<Rightarrow> Some (Some (parse_error (ext_error_text E) err), s)
           | Inr payload \<Rightarrow>
               handler ctx
                 \<lparr>ce_Metadata = ue_Metadata event, ce_DeliveryInfo = ue_DeliveryInfo event,
                  ce_Payload = payload\<rparr> s))"

section \<open>Dynamic type mapping\<close>

text \<open>
  A payload of type \<open>any\<close> is a \<open>json.RawMessage\<close> or some other value. A \<open>reflect.Type\<close> has an
  element type (pointers do) or \<open>Elem()\<close> panics (structs do not); for an element type the code
  decodes JSON into a fresh value of it.
\<close>

datatype 'x any_payload = RawMessage string | AnyPayload 'x

record 'x reflect_type =
  rt_Elem :: "(string \<Rightarrow> go_error + 'x) option"

type_synonym 'x TypeMapper = "string \<Rightarrow> 'x reflect_type option \<times> bool"

definition TypeMappingHandler ::
  "'x ext \<Rightarrow> ('x, 'x any_payload, 'app) EventHandler \<Rightarrow> 'x TypeMapper option
   \<Rightarrow> ('x, 'x any_payload, 'app) EventHandler" where
  "TypeMappingHandler E handler routingKeyToType ctx event s =
     (case routingKeyToType of
        None \<Rightarrow> Some (Some (Plain ''TypeMapper is nil''), s)
      | Some mapper \<Rightarrow>
          (case mapper (di_Key (ce_DeliveryInfo event)) of (typ, exists) \<Rightarrow>
             if \<not> exists then Some (Some (Known ErrNoMessageTypeForRouteKey), s)
             else
               do {
                 t \<leftarrow> typ;
                 unmarshal \<leftarrow> rt_Elem t;
                 (case ce_Payload event of
                    AnyPayload _ \<Rightarrow> None
                  | RawMessage raw \<Rightarrow>
                      (case unmarshal raw of
                         Inl err \<Rightarrow> Some (Some (parse_error (ext_error_text E) err), s)
                       | Inr v \<Rightarrow> handler ctx (event\<lparr>ce_Payload := AnyPayload v\<rparr>) s))
               }))"

section \<open>The table of handlers\<close>

type_synonym ('x, 'app) routingKeyHandler = "('x, 'app) wrappedHandler gomap"

text \<open>\<open>get\<close> ranges over the map and returns the handler of the first pattern that matches.\<close>

definition rkh_get :: "'e spec_pkg_scheme \<Rightarrow> (string \<Rightarrow> nat) \<Rightarrow> 'h gomap \<Rightarrow> string \<Rightarrow> 'h option" where
  "rkh_get E rank h routingKey =
     map_option snd
       (List.find (\<lambda>(mapped, _). spec_MatchRoutingKey E mapped routingKey) (range_order rank h))"

definition rkh_add :: "'h gomap \<Rightarrow> string \<Rightarrow> 'h \<Rightarrow> 'h gomap" where
  "rkh_add h routingKey handler = AList.update routingKey handler h"

text \<open>
  The contract of a table of handlers: registering a handler for a pattern replaces the one
  registered for the same pattern, and a lookup returns a handler registered for some pattern that
  matches, if there is one. Which one it returns when several match is left open.
\<close>

locale dispatch_table =
  fixes fresh :: "'t"
    and register :: "'t \<Rightarrow> string \<Rightarrow> 'h \<Rightarrow> 't"
    and dispatch :: "'t \<Rightarrow> string \<Rightarrow> 'h option"
    and entries :: "'t \<Rightarrow> string \<Rightarrow> 'h option"
    and matches :: "string \<Rightarrow> string \<Rightarrow> bool"
    and invar :: "'t \<Rightarrow> bool"
  assumes invar_fresh: "invar fresh"
    and invar_register: "invar t \<Longrightarrow> invar (register t p h)"
    and entries_fresh: "entries fresh = Map.empty"
    and entries_register: "invar t \<Longrightarrow> entries (register t p h) = (entries t)(p \<mapsto> h)"
    and dispatch_Some: "invar t \<Longrightarrow> dispatch t k = Some h \<Longrightarrow> \<exists>p. entries t p = Some h \<and> matches p k"
    and dispatch_None: "invar t \<Longrightarrow> dispatch t k = None \<Longrightarrow> matches p k \<Longrightarrow> entries t p = None"
begin

lemma dispatch_unique:
  assumes "invar t" and "entries t p = Some h" and "matches p k"
    and "\<And>q g. entries t q = Some g \<Longrightarrow> matches q k \<Longrightarrow> q = p"
  shows "dispatch t k = Some h"
proof (cases "dispatch t k")
  case None
  with assms(1-3) dispatch_None show ?thesis by fastforce
next
  case (Some g)
  with assms(1) dispatch_Some obtain q where "entries t q = Some g" "matches q k" by blast
  with assms(2,4) Some show ?thesis by auto
qed

lemma dispatch_defined:
  "invar t \<Longrightarrow> dispatch t k \<noteq> None \<longleftrightarrow> (\<exists>p. entries t p \<noteq> None \<and> matches p k)"
  using dispatch_Some dispatch_None by fastforce

lemma invar_register_all: "invar t \<Longrightarrow> invar (fold (\<lambda>(p, h) t. register t p h) phs t)"
  by (induction phs arbitrary: t) (auto intro: invar_register)

lemma entries_register_all:
  "invar t \<Longrightarrow>
   entries (fold (\<lambda>(p, h) t. register t p h) phs t) = entries t ++ map_of (rev phs)"
proof (induction phs arbitrary: t)
  case Nil
  then show ?case by simp
next
  case (Cons ph phs)
  then show ?case
    by (cases ph)
      (auto simp: invar_register entries_register map_add_def fun_eq_iff split: option.split)
qed

lemma dispatch_registered:
  assumes "dispatch (fold (\<lambda>(p, h) t. register t p h) phs fresh) k = Some h"
  shows "\<exists>p. (p, h) \<in> set phs \<and> matches p k"
proof -
  have "invar (fold (\<lambda>(p, h) t. register t p h) phs fresh)"
    by (simp add: invar_fresh invar_register_all)
  from dispatch_Some [OF this assms] show ?thesis
    by (auto simp: entries_register_all invar_fresh entries_fresh dest!: map_of_SomeD)
qed

end

text \<open>A handler that never panics.\<close>

definition total_handler ::
  "('x \<Rightarrow> 'x unmarshalEvent \<Rightarrow> 'app \<Rightarrow> ('r \<times> 'app) option) \<Rightarrow> bool" where
  "total_handler h \<longleftrightarrow> (\<forall>ctx ev s. h ctx ev s \<noteq> None)"

lemma find_SomeD: "List.find P xs = Some x \<Longrightarrow> x \<in> set xs \<and> P x"
  by (induction xs) (auto split: if_splits)

lemma rkh_get_member: "rkh_get E rank m k = Some h \<Longrightarrow> h \<in> snd ` set m"
  by (auto simp: rkh_get_def dest!: find_SomeD) (force simp: image_iff)

lemma find_rank:
  "gomap_ok m \<Longrightarrow> rkh_get E rank m k = Some h \<Longrightarrow>
   \<exists>p. map_of m p = Some h \<and> spec_MatchRoutingKey E p k"
  by (auto simp: rkh_get_def find_Some_iff gomap_ok_def)
    (metis distinct_range_order gomap_ok_def map_of_eq_Some_iff map_of_range_order nth_mem)

interpretation rkh: dispatch_table "[]" rkh_add "rkh_get E rank" map_of "spec_MatchRoutingKey E"
    gomap_ok for E rank
proof (unfold_locales, goal_cases)
  case 1
  then show ?case by (simp add: gomap_ok_def)
next
  case (2 t p h)
  then show ?case by (simp add: gomap_ok_def rkh_add_def distinct_update)
next
  case 3
  then show ?case by simp
next
  case (4 t p h)
  then show ?case by (simp add: rkh_add_def update_conv')
next
  case (5 t k h)
  then show ?case by (rule find_rank)
next
  case (6 t k p)
  then have "\<forall>(q, g) \<in> set t. \<not> spec_MatchRoutingKey E q k"
    by (auto simp: rkh_get_def find_None_iff)
  with 6 show ?case by (auto simp: map_of_eq_None_iff)
qed

text \<open>A type of payloads to run the definitions on.\<close>

definition demo_type :: "nat go_type" where
  "demo_type = \<lparr>ty_IsInterface = False, ty_String = ''int'', ty_AssertRaw = (\<lambda>_. None),
     ty_Unmarshal = (\<lambda>s. if s = ''1'' then Inr 1 else Inl (Plain ''not a number''))\<rparr>"

end
