(* ===== verification/Consumer.thy ===== *)
theory Consumer
  imports Naming Headers Metrics Notifications Tracing Go_Json Handlers
begin

text \<open>
  \<open>consumer.go\<close>: the configuration of a consumer and its options, and the processing of one
  message by a JetStream consumer (\<open>handleMessage\<close>, \<open>handleDelivery\<close>) and by a Core NATS
  subscription (\<open>handleCoreMessage\<close>). A processing step maps a world to the world after it, or
  panics. The abstract view of JetStream processing is \<open>decide\<close>: what becomes of a message is a
  function of the handler's result alone.
\<close>

section \<open>Configuration\<close>

record ('x, 'app) consumerConfig =
  cc_stream :: string
  cc_routingKey :: string
  cc_consumerName :: string
  cc_ephemeral :: bool
  cc_handler :: "('x, 'app) wrappedHandler"
  cc_suffix :: string
  cc_maxDeliver :: int
  cc_backOff :: "int list option"

type_synonym ('x, 'app) ConsumerOptions =
  "('x, 'app) consumerConfig \<Rightarrow> go_error + ('x, 'app) consumerConfig"

definition AddConsumerNameSuffix :: "string \<Rightarrow> ('x, 'app) ConsumerOptions" where
  "AddConsumerNameSuffix sfx config =
     (if sfx = '''' then Inl (Known ErrEmptySuffix) else Inr (config\<lparr>cc_suffix := sfx\<rparr>))"

definition WithMaxDeliver :: "int \<Rightarrow> ('x, 'app) ConsumerOptions" where
  "WithMaxDeliver n config =
     (if n < 0 then Inl (Plain (''MaxDeliver must be >= 0, got '' @ int_digits n))
      else Inr (config\<lparr>cc_maxDeliver := n\<rparr>))"

definition WithBackOff :: "int list option \<Rightarrow> ('x, 'app) ConsumerOptions" where
  "WithBackOff durations config = Inr (config\<lparr>cc_backOff := durations\<rparr>)"

fun apply_options ::
  "('x, 'app) ConsumerOptions list \<Rightarrow> ('x, 'app) consumerConfig
   \<Rightarrow> go_error + ('x, 'app) consumerConfig" where
  "apply_options [] cfg = Inr cfg"
| "apply_options (f # fs) cfg =
     (case f cfg of Inl err \<Rightarrow> Inl err | Inr cfg \<Rightarrow> apply_options fs cfg)"

definition newConsumerConfig ::
  "'x ext \<Rightarrow> string \<Rightarrow> string \<Rightarrow> bool \<Rightarrow> ('x, 'app) wrappedHandler \<Rightarrow> string
   \<Rightarrow> ('x, 'app) ConsumerOptions list \<Rightarrow> go_error + ('x, 'app) consumerConfig" where
  "newConsumerConfig E stream routingKey ephemeral handler serviceName opts =
     (let cfg = \<lparr>cc_stream = stream, cc_routingKey = routingKey, cc_consumerName = '''',
                 cc_ephemeral = ephemeral, cc_handler = handler, cc_suffix = '''',
                 cc_maxDeliver = 0, cc_backOff = None\<rparr>
      in case apply_options opts cfg of
           Inl err \<Rightarrow> Inl (wrap_error (ext_error_text E) ''consumer option failed'' err)
         | Inr cfg \<Rightarrow>
             Inr (if \<not> ephemeral
                  then cfg\<lparr>cc_consumerName :=
                         (if cc_suffix cfg \<noteq> ''''
                          then consumerNameWithSuffix serviceName (cc_suffix cfg)
                          else consumerName serviceName)\<rparr>
                  else cfg))"

text \<open>The options the package offers; \<open>consumerConfig\<close> is not exported, so there are no others.\<close>

inductive pkg_option :: "('x, 'app) ConsumerOptions \<Rightarrow> bool" where
  suffix_option: "pkg_option (AddConsumerNameSuffix sfx)"
| max_deliver_option: "pkg_option (WithMaxDeliver n)"
| back_off_option: "pkg_option (WithBackOff ds)"

section \<open>Processing a JetStream message\<close>

record ('x, 'app) jsConsumer =
  jsc_name :: string
  jsc_stream :: string
  jsc_serviceName :: string
  jsc_handlers :: "('x, 'app) routingKeyHandler"
  jsc_notificationCh :: "nat option"
  jsc_errorCh :: "nat option"
  jsc_spanNameFn :: "('x delivery_info \<Rightarrow> string) option"
  jsc_tracer :: "'x option"
  jsc_propagator :: "'x option"

definition getTracer :: "'x ext \<Rightarrow> ('x, 'app) jsConsumer \<Rightarrow> 'x" where
  "getTracer E c = (case jsc_tracer c of Some t \<Rightarrow> t | None \<Rightarrow> tracerFromProvider E None)"

text \<open>\<open>messageID, _ := headers[spec.CEID].(string)\<close>.\<close>

definition message_id :: "'x ext \<Rightarrow> 'x spec_headers \<Rightarrow> string" where
  "message_id E headers =
     (case map_of headers (spec_CEID E) of Some (AnyString s) \<Rightarrow> s | _ \<Rightarrow> '''')"

text \<open>
  The part that \<open>handleDelivery\<close>, \<open>handleCoreMessage\<close> and \<open>startRequestResponseConsumer\<close> have in
  common: extract the trace context, start a span, read the clock, build the event and call the
  handler. Returns the handler's result and the start time; a \<open>nil\<close> span name function panics.
\<close>

definition invoke_handler ::
  "'x ext \<Rightarrow> ('x, 'app) jsConsumer \<Rightarrow> 'x delivery_info \<Rightarrow> nats_header \<Rightarrow> string
   \<Rightarrow> ('x \<Rightarrow> 'x unmarshalEvent \<Rightarrow> 'app \<Rightarrow> ('r \<times> 'app) option)
   \<Rightarrow> ('x, 'app, 'w) cworld_scheme \<Rightarrow> ('r \<times> int \<times> ('x, 'app, 'w) cworld_scheme) option" where
  "invoke_handler E c deliveryInfo msgHeader data handler w =
     do {
       let headers = di_Headers deliveryInfo;
       let headerCtx = extractToContext E (map_rank E (trace w) ''extractToContext'')
                         (context_Background E) msgHeader (jsc_propagator c);
       let spanAttrs = consumerSpanAttributes deliveryInfo (jsc_serviceName c)
                         (message_id E headers) (length data);
       spanNameFn \<leftarrow> jsc_spanNameFn c;
       let tracingCtx = tracer_Start E (getTracer E c) headerCtx (spanNameFn deliveryInfo);
       let w = emit (SpanStart (spanNameFn deliveryInfo) SpanKindConsumer spanAttrs) w;
       let startTime = clock E (trace w);
       let uevt = \<lparr>ue_Metadata = spec_MetadataFromHeaders E headers,
                   ue_DeliveryInfo = deliveryInfo, ue_Payload = data\<rparr>;
       let w = emit (InvokeHandler uevt) w;
       (result, s) \<leftarrow> handler tracingCtx uevt (app w);
       Some (result, startTime, w\<lparr>app := s\<rparr>)
     }"

text \<open>The branches of \<open>handleDelivery\<close> after a handler error: count, and settle the message.\<close>

definition settle_failure ::
  "('x, 'app) jsConsumer \<Rightarrow> js_msg \<Rightarrow> string \<Rightarrow> int \<Rightarrow> go_error
   \<Rightarrow> ('x, 'app, 'w) cworld_scheme \<Rightarrow> ('x, 'app, 'w) cworld_scheme" where
  "settle_failure c msg routingKey elapsed err w =
     (if errors_is err ErrParseJSON then
        (let w = log_at LevelWarn ''failed to parse message, terminating'' w;
             w = eventNotParsable (jsc_name c) routingKey w
         in emit (MsgTerm (jm_Id msg)) w)
      else if errors_is err ErrNoMessageTypeForRouteKey then
        (let w = log_at LevelWarn ''no type mapping for routing key, terminating'' w;
             w = eventWithoutHandler (jsc_name c) routingKey w
         in emit (MsgTerm (jm_Id msg)) w)
      else
        (let w = log_at LevelError ''handler failed, naking for redelivery'' w;
             w = eventNak (jsc_name c) routingKey elapsed w
         in emit (MsgNak (jm_Id msg)) w))"

text \<open>What \<open>handleDelivery\<close> does once the handler has returned.\<close>

definition finish_delivery ::
  "'x ext \<Rightarrow> ('x, 'app) jsConsumer \<Rightarrow> js_msg \<Rightarrow> string \<Rightarrow> 'x delivery_info \<Rightarrow> int \<Rightarrow> go_error option
   \<Rightarrow> ('x, 'app, 'w) cworld_scheme \<Rightarrow> ('x, 'app, 'w) cworld_scheme option" where
  "finish_delivery E c msg routingKey deliveryInfo startTime result w =
     (case result of
        Some err \<Rightarrow>
          do {
            let w = emit (SpanRecordError err) w;
            let w = emit (SpanSetStatus StatusError (err_text E err)) w;
            let elapsed = milliseconds (clock E (trace w) - startTime);
            w \<leftarrow> notifyEventHandlerFailed (jsc_errorCh c) deliveryInfo elapsed err w;
            let w = settle_failure c msg routingKey elapsed err w;
            Some (emit SpanEnd w)
          }
      | None \<Rightarrow>
          do {
            let elapsed = milliseconds (clock E (trace w) - startTime);
            let w = emit (SpanSetStatus StatusOk '''') w;
            w \<leftarrow> notifyEventHandlerSucceed (jsc_notificationCh c) deliveryInfo elapsed w;
            let w = emit (MsgAck (jm_Id msg)) w;
            let w = eventAck (jsc_name c) routingKey elapsed w;
            let w = log_at LevelDebug ''message processed'' w;
            Some (emit SpanEnd w)
          })"

definition handleDelivery ::
  "'x ext \<Rightarrow> ('x, 'app) jsConsumer \<Rightarrow> ('x, 'app) wrappedHandler \<Rightarrow> js_msg \<Rightarrow> string
   \<Rightarrow> ('x, 'app, 'w) cworld_scheme \<Rightarrow> ('x, 'app, 'w) cworld_scheme option" where
  "handleDelivery E c handler msg routingKey w =
     do {
       let headers = fromNATSHeaders E (map_rank E (trace w) ''fromNATSHeaders'') (jm_Headers msg);
       let deliveryInfo = \<lparr>di_Destination = jsc_name c, di_Source = jsc_stream c,
                           di_Key = routingKey, di_Headers = headers\<rparr>;
       let w = (if spec_ValidateCEHeaders E headers \<noteq> []
                then log_at LevelWarn ''incoming message has invalid CloudEvents headers'' w
                else w);
       (result, startTime, w) \<leftarrow>
         invoke_handler E c deliveryInfo (jm_Headers msg) (jm_Data msg) handler w;
       finish_delivery E c msg routingKey deliveryInfo startTime result w
     }"

definition handleMessage ::
  "'x ext \<Rightarrow> ('x, 'app) jsConsumer \<Rightarrow> js_msg
   \<Rightarrow> ('x, 'app, 'w) cworld_scheme \<Rightarrow> ('x, 'app, 'w) cworld_scheme option" where
  "handleMessage E c msg w =
     (let routingKey = routing_key_of_subject (jm_Subject msg);
          w = eventReceived (jsc_name c) routingKey w
      in case rkh_get E (map_rank E (trace w) ''get'') (jsc_handlers c) routingKey of
           None \<Rightarrow>
             (let w = log_at LevelWarn ''no handler for routing key, rejecting'' w;
                  w = eventWithoutHandler (jsc_name c) routingKey w
              in Some (emit (MsgTerm (jm_Id msg)) w))
         | Some handler \<Rightarrow> handleDelivery E c handler msg routingKey w)"

section \<open>Processing a Core NATS message\<close>

text \<open>\<open>if msg.Reply != "" { ... msg.Respond(errResp) }\<close>.\<close>

definition respond_error ::
  "'x ext \<Rightarrow> nats_msg \<Rightarrow> go_error \<Rightarrow> ('x, 'w) world_scheme \<Rightarrow> ('x, 'w) world_scheme" where
  "respond_error E msg err w =
     (if msg_Reply msg \<noteq> ''''
      then emit (MsgRespond (msg_Reply msg) (json_error_object (err_text E err))) w
      else w)"

definition finish_core ::
  "'x ext \<Rightarrow> ('x, 'app) jsConsumer \<Rightarrow> nats_msg \<Rightarrow> string \<Rightarrow> 'x delivery_info \<Rightarrow> int \<Rightarrow> go_error option
   \<Rightarrow> ('x, 'app, 'w) cworld_scheme \<Rightarrow> ('x, 'app, 'w) cworld_scheme option" where
  "finish_core E c msg routingKey deliveryInfo startTime result w =
     (case result of
        Some err \<Rightarrow>
          do {
            let w = emit (SpanRecordError err) w;
            let w = emit (SpanSetStatus StatusError (err_text E err)) w;
            let elapsed = milliseconds (clock E (trace w) - startTime);
            w \<leftarrow> notifyEventHandlerFailed (jsc_errorCh c) deliveryInfo elapsed err w;
            let w = log_at LevelError ''handler failed'' w;
            let w = eventNak (jsc_name c) routingKey elapsed w;
            let w = respond_error E msg err w;
            Some (emit SpanEnd w)
          }
      | None \<Rightarrow>
          do {
            let elapsed = milliseconds (clock E (trace w) - startTime);
            let w = emit (SpanSetStatus StatusOk '''') w;
            w \<leftarrow> notifyEventHandlerSucceed (jsc_notificationCh c) deliveryInfo elapsed w;
            let w = eventAck (jsc_name c) routingKey elapsed w;
            let w = log_at LevelDebug ''message processed'' w;
            Some (emit SpanEnd w)
          })"

definition handleCoreMessage ::
  "'x ext \<Rightarrow> ('x, 'app) jsConsumer \<Rightarrow> nats_msg \<Rightarrow> string
   \<Rightarrow> ('x, 'app, 'w) cworld_scheme \<Rightarrow> ('x, 'app, 'w) cworld_scheme option" where
  "handleCoreMessage E c msg routingKey w =
     (let w = eventReceived (jsc_name c) routingKey w
      in case rkh_get E (map_rank E (trace w) ''get'') (jsc_handlers c) routingKey of
           None \<Rightarrow>
             (let w = log_at LevelWarn ''no handler for routing key'' w
              in Some (eventWithoutHandler (jsc_name c) routingKey w))
         | Some handler \<Rightarrow>
             do {
               let headers = fromNATSHeaders E (map_rank E (trace w) ''fromNATSHeaders'')
                               (msg_Header msg);
               let deliveryInfo = \<lparr>di_Destination = jsc_name c, di_Source = msg_Subject msg,
                                   di_Key = routingKey, di_Headers = headers\<rparr>;
               (result, startTime, w) \<leftarrow>
                 invoke_handler E c deliveryInfo (msg_Header msg) (msg_Data msg) handler w;
               finish_core E c msg routingKey deliveryInfo startTime result w
             })"

section \<open>Options\<close>

lemma pkg_option_frame:
  assumes "pkg_option f" and "f cfg = Inr cfg'"
  shows "cc_stream cfg' = cc_stream cfg \<and> cc_routingKey cfg' = cc_routingKey cfg \<and>
    cc_ephemeral cfg' = cc_ephemeral cfg \<and> cc_handler cfg' = cc_handler cfg \<and>
    cc_consumerName cfg' = cc_consumerName cfg \<and>
    (0 \<le> cc_maxDeliver cfg \<longrightarrow> 0 \<le> cc_maxDeliver cfg')"
  using assms
  by cases (auto simp: AddConsumerNameSuffix_def WithMaxDeliver_def WithBackOff_def split: if_splits)

lemma apply_options_frame:
  assumes "list_all pkg_option opts" and "apply_options opts cfg = Inr cfg'"
  shows "cc_stream cfg' = cc_stream cfg \<and> cc_routingKey cfg' = cc_routingKey cfg \<and>
    cc_ephemeral cfg' = cc_ephemeral cfg \<and> cc_handler cfg' = cc_handler cfg \<and>
    cc_consumerName cfg' = cc_consumerName cfg \<and>
    (0 \<le> cc_maxDeliver cfg \<longrightarrow> 0 \<le> cc_maxDeliver cfg')"
  using assms
proof (induction opts arbitrary: cfg)
  case Nil
  then show ?case by simp
next
  case (Cons f fs)
  then obtain cfg1 where f: "f cfg = Inr cfg1" and fs: "apply_options fs cfg1 = Inr cfg'"
    by (auto split: sum.splits)
  from Cons.prems(1) have "pkg_option f" "list_all pkg_option fs" by auto
  with pkg_option_frame [OF this(1) f] Cons.IH [OF _ fs] show ?case by simp
qed

section \<open>Views of a trace\<close>

text \<open>What became of messages, which events handlers were given, which counters were incremented,
  which replies were sent; each in the order of the calls.\<close>

datatype settlement = Acked | Naked | Terminated

fun settlement_of :: "'x call \<Rightarrow> (nat \<times> settlement) option" where
  "settlement_of (MsgAck i) = Some (i, Acked)"
| "settlement_of (MsgNak i) = Some (i, Naked)"
| "settlement_of (MsgTerm i) = Some (i, Terminated)"
| "settlement_of _ = None"

fun invocation_of :: "'x call \<Rightarrow> 'x unmarshalEvent option" where
  "invocation_of (InvokeHandler e) = Some e"
| "invocation_of _ = None"

fun counter_of :: "'x call \<Rightarrow> (metric_desc \<times> string list) option" where
  "counter_of (CounterInc d ls) = Some (d, ls)"
| "counter_of _ = None"

fun reply_of :: "'x call \<Rightarrow> (string \<times> string) option" where
  "reply_of (MsgRespond r d) = Some (r, d)"
| "reply_of _ = None"

definition settlements :: "'x call list \<Rightarrow> (nat \<times> settlement) list" where
  "settlements t = List.map_filter settlement_of t"

definition invocations :: "'x call list \<Rightarrow> 'x unmarshalEvent list" where
  "invocations t = List.map_filter invocation_of t"

definition counters :: "'x call list \<Rightarrow> (metric_desc \<times> string list) list" where
  "counters t = List.map_filter counter_of t"

definition replies :: "'x call list \<Rightarrow> (string \<times> string) list" where
  "replies t = List.map_filter reply_of t"

lemma map_filter_append [simp]:
  "List.map_filter f (xs @ ys) = List.map_filter f xs @ List.map_filter f ys"
  by (simp add: List.map_filter_def)

lemma views_append [simp]:
  "settlements (s @ t) = settlements s @ settlements t"
  "invocations (s @ t) = invocations s @ invocations t"
  "counters (s @ t) = counters s @ counters t"
  "replies (s @ t) = replies s @ replies t"
  by (simp_all add: settlements_def invocations_def counters_def replies_def)

lemma views_Cons [simp]:
  "settlements (c # t)
     = (case settlement_of c of Some x \<Rightarrow> x # settlements t | None \<Rightarrow> settlements t)"
  "invocations (c # t)
     = (case invocation_of c of Some x \<Rightarrow> x # invocations t | None \<Rightarrow> invocations t)"
  "counters (c # t) = (case counter_of c of Some x \<Rightarrow> x # counters t | None \<Rightarrow> counters t)"
  "replies (c # t) = (case reply_of c of Some x \<Rightarrow> x # replies t | None \<Rightarrow> replies t)"
  "settlements [] = []" "invocations [] = []" "counters [] = []" "replies [] = []"
  by (simp_all add: settlements_def invocations_def counters_def replies_def
      map_filter_simps split: option.split)

section \<open>The abstract decision\<close>

text \<open>The table of \<open>docs/consumers.md\<close>: what a handler's result does to its message, and the counter
  that records it.\<close>

definition decide :: "go_error option \<Rightarrow> settlement" where
  "decide result =
     (case result of
        None \<Rightarrow> Acked
      | Some e \<Rightarrow> if errors_is e ErrParseJSON \<or> errors_is e ErrNoMessageTypeForRouteKey
                  then Terminated else Naked)"

definition outcome_counter :: "go_error option \<Rightarrow> metric_desc" where
  "outcome_counter result =
     (case result of
        None \<Rightarrow> eventAckCounter
      | Some e \<Rightarrow> if errors_is e ErrParseJSON then eventNotParsableCounter
                  else if errors_is e ErrNoMessageTypeForRouteKey then eventWithoutHandlerCounter
                  else eventNakCounter)"

text \<open>The event made of delivery information and data.\<close>

definition event_of :: "'x ext \<Rightarrow> 'x delivery_info \<Rightarrow> string \<Rightarrow> 'x unmarshalEvent" where
  "event_of E info data =
     \<lparr>ue_Metadata = spec_MetadataFromHeaders E (di_Headers info), ue_DeliveryInfo = info,
      ue_Payload = data\<rparr>"

text \<open>The delivery information a JetStream consumer makes of a message.\<close>

definition js_delivery_info ::
  "'x ext \<Rightarrow> ('x, 'app) jsConsumer \<Rightarrow> js_msg \<Rightarrow> string \<Rightarrow> (string \<Rightarrow> nat) \<Rightarrow> 'x delivery_info" where
  "js_delivery_info E c msg routingKey rank =
     \<lparr>di_Destination = jsc_name c, di_Source = jsc_stream c, di_Key = routingKey,
      di_Headers = fromNATSHeaders E rank (jm_Headers msg)\<rparr>"

lemma invoke_handlerE:
  assumes "invoke_handler E c info hdr data h w = Some (r, t0, w')"
  obtains f ctx s attrs where "jsc_spanNameFn c = Some f"
    "h ctx (event_of E info data) (app w) = Some (r, s)"
    "w' = w\<lparr>trace := trace w @ [SpanStart (f info) SpanKindConsumer attrs,
                               InvokeHandler (event_of E info data)], app := s\<rparr>"
  using assms by (auto simp: invoke_handler_def Let_def bind_eq_Some_conv event_of_def emit_def)

lemma invoke_handler_views:
  assumes "invoke_handler E c info hdr data h w = Some (r, t0, w')"
  shows "settlements (trace w') = settlements (trace w)"
    and "invocations (trace w') = invocations (trace w) @ [event_of E info data]"
    and "counters (trace w') = counters (trace w)"
    and "replies (trace w') = replies (trace w)"
    and "routingKeyMapperVal w' = routingKeyMapperVal w"
    and "nchans w' = nchans w" and "echans w' = echans w"
    and "\<exists>ctx. h ctx (event_of E info data) (app w) = Some (r, app w')"
  using assms by (auto elim!: invoke_handlerE)

lemma app_event_helpers [trace_simps, simp]:
  "app (eventReceived c k w) = app w" "app (eventWithoutHandler c k w) = app w"
  "app (eventNotParsable c k w) = app w" "app (eventNak c k ms w) = app w"
  "app (eventAck c k ms w) = app w"
  by (simp_all add: eventReceived_def eventWithoutHandler_def eventNotParsable_def eventNak_def
      eventAck_def Let_def)

lemma chans_event_helpers [trace_simps, simp]:
  "nchans (eventReceived c k w) = nchans w" "echans (eventReceived c k w) = echans w"
  "nchans (eventWithoutHandler c k w) = nchans w" "echans (eventWithoutHandler c k w) = echans w"
  "nchans (eventNotParsable c k w) = nchans w" "echans (eventNotParsable c k w) = echans w"
  "nchans (eventNak c k ms w) = nchans w" "echans (eventNak c k ms w) = echans w"
  "nchans (eventAck c k ms w) = nchans w" "echans (eventAck c k ms w) = echans w"
  by (simp_all add: eventReceived_def eventWithoutHandler_def eventNotParsable_def eventNak_def
      eventAck_def Let_def)

lemma routingKeyLabel_cong:
  "routingKeyMapperVal w = routingKeyMapperVal v \<Longrightarrow> routingKeyLabel w k = routingKeyLabel v k"
  by (simp add: routingKeyLabel_def)

lemma settle_failure_views [simp]:
  "settlements (trace (settle_failure c msg rk ms e w))
     = settlements (trace w) @ [(jm_Id msg, decide (Some e))]"
  "invocations (trace (settle_failure c msg rk ms e w)) = invocations (trace w)"
  "counters (trace (settle_failure c msg rk ms e w))
     = counters (trace w) @ [(outcome_counter (Some e), [jsc_name c, routingKeyLabel w rk])]"
  "replies (trace (settle_failure c msg rk ms e w)) = replies (trace w)"
  "app (settle_failure c msg rk ms e w) = app w"
  "routingKeyMapperVal (settle_failure c msg rk ms e w) = routingKeyMapperVal w"
  "nchans (settle_failure c msg rk ms e w) = nchans w"
  "echans (settle_failure c msg rk ms e w) = echans w"
  by (simp_all add: settle_failure_def decide_def outcome_counter_def Let_def routingKeyLabel_def)

lemma channels_ok_cong:
  "nchans w' = nchans w \<Longrightarrow> echans w' = echans w \<Longrightarrow> channels_ok w' = channels_ok w"
  by (simp add: channels_ok_def)

lemma finish_delivery_views:
  assumes "finish_delivery E c msg rk info t0 result w = Some w'"
  shows "settlements (trace w') = settlements (trace w) @ [(jm_Id msg, decide result)]"
    and "invocations (trace w') = invocations (trace w)"
    and "counters (trace w')
       = counters (trace w) @ [(outcome_counter result, [jsc_name c, routingKeyLabel w rk])]"
    and "replies (trace w') = replies (trace w)"
    and "app w' = app w" and "routingKeyMapperVal w' = routingKeyMapperVal w"
    and "channels_ok w \<Longrightarrow> channels_ok w'"
  using assms
  by (auto simp: finish_delivery_def Let_def bind_eq_Some_conv notify_failed_frame
      notify_succeed_frame decide_def outcome_counter_def routingKeyLabel_def
      channels_ok_cong [of "emit c w" w for c w]
      channels_ok_cong [of "log_at l s w" w for l s w]
      channels_ok_cong [of "eventAck n k t w" w for n k t w]
      channels_ok_cong [of "settle_failure n m k t e w" w for n m k t e w]
      dest: notify_failed_ok notify_succeed_ok split: option.splits)

text \<open>A result is announced on the channel for it, the other one is left alone.\<close>

definition announced ::
  "('x, 'app) jsConsumer \<Rightarrow> 'x delivery_info \<Rightarrow> int \<Rightarrow> go_error option
   \<Rightarrow> ('x, 'app, 'w) cworld_scheme \<Rightarrow> ('x, 'app, 'w) cworld_scheme \<Rightarrow> bool" where
  "announced c info took result w w' \<longleftrightarrow>
     (case result of
        None \<Rightarrow> echans w' = echans w \<and>
          offered_at (jsc_notificationCh c) \<lparr>nt_DeliveryInfo = info,
            nt_Source = NotificationSourceConsumer, nt_Duration = took\<rparr> (nchans w) (nchans w')
      | Some err \<Rightarrow> nchans w' = nchans w \<and>
          offered_at (jsc_errorCh c) \<lparr>en_Error = err, en_DeliveryInfo = info,
            en_Source = NotificationSourceConsumer, en_Duration = took\<rparr> (echans w) (echans w'))"

lemma announced_cong:
  "nchans v = nchans w \<Longrightarrow> echans v = echans w \<Longrightarrow>
   announced c info took r v w' = announced c info took r w w'"
  by (simp add: announced_def split: option.split)

lemma finish_delivery_announces:
  assumes "finish_delivery E c msg rk info t0 r w = Some w'" and "channels_ok w"
  shows "\<exists>took. announced c info took r w w'"
proof (cases r)
  case (Some e)
  let ?w1 = "emit (SpanSetStatus StatusError (err_text E e)) (emit (SpanRecordError e) w)"
  from assms(1) Some obtain ms w2 where
    n: "notifyEventHandlerFailed (jsc_errorCh c) info ms e ?w1 = Some w2"
    and w': "w' = emit SpanEnd (settle_failure c msg rk ms e w2)"
    by (auto simp: finish_delivery_def Let_def bind_eq_Some_conv)
  have "channels_ok ?w1" using assms(2) by (simp add: channels_ok_def)
  from notify_failed_offered [OF this n] notify_failed_frame(3) [OF n] show ?thesis
    by (auto simp: announced_def Some w')
next
  case None
  let ?w1 = "emit (SpanSetStatus StatusOk []) w"
  from assms(1) None obtain ms w2 where
    n: "notifyEventHandlerSucceed (jsc_notificationCh c) info ms ?w1 = Some w2"
    and w': "w' = emit SpanEnd (log_at LevelDebug ''message processed''
      (eventAck (jsc_name c) rk ms (emit (MsgAck (jm_Id msg)) w2)))"
    by (auto simp: finish_delivery_def Let_def bind_eq_Some_conv)
  have "channels_ok ?w1" using assms(2) by (simp add: channels_ok_def)
  from notify_succeed_offered [OF this n] notify_succeed_frame(3) [OF n] show ?thesis
    by (auto simp: announced_def None w')
qed

text \<open>One delivery, on every path that does not panic.\<close>

lemma handleDelivery_views:
  fixes w w' :: "('x, 'app, 'w) cworld_scheme"
  assumes "handleDelivery E c h msg rk w = Some w'"
  defines "info \<equiv> js_delivery_info E c msg rk (map_rank E (trace w) ''fromNATSHeaders'')"
  obtains ctx result where
    "h ctx (event_of E info (jm_Data msg)) (app w) = Some (result, app w')"
    "settlements (trace w') = settlements (trace w) @ [(jm_Id msg, decide result)]"
    "invocations (trace w') = invocations (trace w) @ [event_of E info (jm_Data msg)]"
    "counters (trace w')
       = counters (trace w) @ [(outcome_counter result, [jsc_name c, routingKeyLabel w rk])]"
    "replies (trace w') = replies (trace w)"
    "routingKeyMapperVal w' = routingKeyMapperVal w"
    "channels_ok w \<Longrightarrow> channels_ok w'"
    "channels_ok w \<Longrightarrow> \<exists>took. announced c info took result w w'"
proof -
  let ?w0 = "if spec_ValidateCEHeaders E (di_Headers info) \<noteq> []
             then log_at LevelWarn ''incoming message has invalid CloudEvents headers'' w else w"
  obtain result t0 w1 where
    inv: "invoke_handler E c info (jm_Headers msg) (jm_Data msg) h ?w0 = Some (result, t0, w1)"
    and fin: "finish_delivery E c msg rk info t0 result w1 = Some w'"
    using assms(1) unfolding handleDelivery_def info_def js_delivery_info_def Let_def
    by (auto simp: bind_eq_Some_conv)
  note iv = invoke_handler_views [OF inv]
  note fv = finish_delivery_views [OF fin]
  obtain ctx where "h ctx (event_of E info (jm_Data msg)) (app ?w0) = Some (result, app w1)"
    using iv(8) by blast
  then have "h ctx (event_of E info (jm_Data msg)) (app w) = Some (result, app w')"
    by (simp add: fv(5) split: if_splits)
  moreover have ok: "channels_ok w1 = channels_ok w"
    by (rule channels_ok_cong) (simp_all add: iv)
  moreover have "routingKeyLabel w1 rk = routingKeyLabel w rk"
    by (rule routingKeyLabel_cong) (simp add: iv)
  moreover have "announced c info took result w1 w' = announced c info took result w w'" for took
    by (rule announced_cong) (simp_all add: iv)
  ultimately show thesis
    using finish_delivery_announces [OF fin]
    by (intro that [of ctx result]) (simp_all add: iv fv)
qed

text \<open>One message, on every path that does not panic.\<close>

lemma handleMessage_views:
  fixes w w' :: "('x, 'app, 'w) cworld_scheme"
  assumes "handleMessage E c msg w = Some w'"
  defines "k \<equiv> routing_key_of_subject (jm_Subject msg)"
  defines "w0 \<equiv> eventReceived (jsc_name c) k w"
  defines "info \<equiv> js_delivery_info E c msg k (map_rank E (trace w0) ''fromNATSHeaders'')"
  defines "labels \<equiv> [jsc_name c, routingKeyLabel w k]"
  obtains (Unhandled)
    "rkh_get E (map_rank E (trace w0) ''get'') (jsc_handlers c) k = None"
    "settlements (trace w') = settlements (trace w) @ [(jm_Id msg, Terminated)]"
    "invocations (trace w') = invocations (trace w)"
    "counters (trace w') = counters (trace w)
       @ [(eventReceivedCounter, labels), (eventWithoutHandlerCounter, labels)]"
    "app w' = app w" "routingKeyMapperVal w' = routingKeyMapperVal w"
    "nchans w' = nchans w" "echans w' = echans w"
  | (Handled) h ctx result where
    "rkh_get E (map_rank E (trace w0) ''get'') (jsc_handlers c) k = Some h"
    "h ctx (event_of E info (jm_Data msg)) (app w) = Some (result, app w')"
    "settlements (trace w') = settlements (trace w) @ [(jm_Id msg, decide result)]"
    "invocations (trace w') = invocations (trace w) @ [event_of E info (jm_Data msg)]"
    "counters (trace w') = counters (trace w)
       @ [(eventReceivedCounter, labels), (outcome_counter result, labels)]"
    "routingKeyMapperVal w' = routingKeyMapperVal w"
    "channels_ok w \<Longrightarrow> channels_ok w'"
    "channels_ok w \<Longrightarrow> \<exists>took. announced c info took result w w'"
proof (cases "rkh_get E (map_rank E (trace w0) ''get'') (jsc_handlers c) k")
  case None
  then have "w' = emit (MsgTerm (jm_Id msg)) (eventWithoutHandler (jsc_name c) k
      (log_at LevelWarn ''no handler for routing key, rejecting'' w0))"
    using assms(1) by (simp add: handleMessage_def Let_def w0_def k_def)
  with None show ?thesis
    by (intro that(1)) (simp_all add: w0_def labels_def routingKeyLabel_def)
next
  case (Some h)
  then have "handleDelivery E c h msg k w0 = Some w'"
    using assms(1) by (simp add: handleMessage_def Let_def w0_def k_def)
  then show ?thesis
  proof (rule handleDelivery_views, goal_cases)
    case (1 ctx result)
    moreover have "channels_ok w0 = channels_ok w"
      by (rule channels_ok_cong) (simp_all add: w0_def)
    moreover have "announced c info took result w0 w' = announced c info took result w w'" for took
      by (rule announced_cong) (simp_all add: w0_def)
    ultimately show ?thesis
      using Some by (intro that(2) [of h ctx result])
        (simp_all add: info_def w0_def labels_def routingKeyLabel_def)
  qed
qed

lemma handleMessage_settles:
  "handleMessage E c msg w = Some w' \<Longrightarrow>
   \<exists>s. settlements (trace w') = settlements (trace w) @ [(jm_Id msg, s)]"
  by (erule handleMessage_views) auto

text \<open>Whether a run is over one message or many, each is settled once and counted once.\<close>

interpretation settled: logs_once "handleMessage E c" "\<lambda>w. map fst (settlements (trace w))" jm_Id
  for E c
  by unfold_locales (auto dest: handleMessage_settles)

interpretation received: logs_once "handleMessage E c"
    "\<lambda>w. filter (\<lambda>d. d = eventReceivedCounter) (map fst (counters (trace w)))"
    "\<lambda>_. eventReceivedCounter" for E c
  by unfold_locales
    (erule handleMessage_views; simp add: outcome_counter_def metric_desc_defs split: option.split)

interpretation concluded: logs_once "handleMessage E c"
    "\<lambda>w. filter (\<lambda>b. b) (map (\<lambda>(d, _). d \<in> {eventAckCounter, eventNakCounter,
       eventWithoutHandlerCounter, eventNotParsableCounter}) (counters (trace w)))"
    "\<lambda>_. True" for E c
  by unfold_locales
    (erule handleMessage_views; simp add: outcome_counter_def metric_desc_defs split: option.split)

text \<open>Processing cannot panic unless the consumer's span name function is \<open>nil\<close>, a channel it may
  send to is closed, or the handler itself panics.\<close>

lemma finish_delivery_defined:
  assumes "channels_open (jsc_notificationCh c) (jsc_errorCh c) w"
  shows "\<exists>w'. finish_delivery E c msg rk info t0 result w = Some w'"
proof (cases result)
  case None
  let ?w = "emit (SpanSetStatus StatusOk '''') w"
  have "channels_open (jsc_notificationCh c) (jsc_errorCh c) ?w"
    using assms by (simp add: channels_open_def)
  then obtain v where "notifyEventHandlerSucceed (jsc_notificationCh c) info
      (milliseconds (clock E (trace w) - t0)) ?w = Some v"
    using notify_succeed_defined by blast
  with None show ?thesis by (simp add: finish_delivery_def Let_def)
next
  case (Some e)
  let ?w = "emit (SpanSetStatus StatusError (err_text E e)) (emit (SpanRecordError e) w)"
  have "channels_open (jsc_notificationCh c) (jsc_errorCh c) ?w"
    using assms by (simp add: channels_open_def)
  then obtain v where "notifyEventHandlerFailed (jsc_errorCh c) info
      (milliseconds (clock E (trace ?w) - t0)) e ?w = Some v"
    using notify_failed_defined by blast
  with Some show ?thesis by (simp add: finish_delivery_def Let_def)
qed

text \<open>A handler that returns for the given routing key, data and application state.\<close>

definition returns_for ::
  "string \<Rightarrow> string \<Rightarrow> 'app \<Rightarrow> ('x \<Rightarrow> 'x unmarshalEvent \<Rightarrow> 'app \<Rightarrow> ('r \<times> 'app) option) \<Rightarrow> bool" where
  "returns_for k data s h \<longleftrightarrow>
     (\<forall>ctx ev. di_Key (ue_DeliveryInfo ev) = k \<longrightarrow> ue_Payload ev = data \<longrightarrow> h ctx ev s \<noteq> None)"

lemma total_returns_for: "total_handler h \<Longrightarrow> returns_for k data s h"
  by (simp add: total_handler_def returns_for_def)

lemma invoke_handler_defined:
  assumes "jsc_spanNameFn c \<noteq> None" and "returns_for (di_Key info) data (app w) h"
  shows "\<exists>r t0 w'. invoke_handler E c info hdr data h w = Some (r, t0, w')"
  using assms by (fastforce simp: invoke_handler_def returns_for_def Let_def bind_eq_Some_conv)

lemma handleDelivery_defined:
  assumes "jsc_spanNameFn c \<noteq> None" and "returns_for rk (jm_Data msg) (app w) h"
    and "channels_open (jsc_notificationCh c) (jsc_errorCh c) w"
  shows "\<exists>w'. handleDelivery E c h msg rk w = Some w'"
proof -
  let ?info = "js_delivery_info E c msg rk (map_rank E (trace w) ''fromNATSHeaders'')"
  let ?w0 = "if spec_ValidateCEHeaders E (di_Headers ?info) \<noteq> []
             then log_at LevelWarn ''incoming message has invalid CloudEvents headers'' w else w"
  have "returns_for (di_Key ?info) (jm_Data msg) (app ?w0) h"
    using assms(2) by (simp add: js_delivery_info_def)
  then obtain r t0 w1 where
    inv: "invoke_handler E c ?info (jm_Headers msg) (jm_Data msg) h ?w0 = Some (r, t0, w1)"
    using invoke_handler_defined [OF assms(1)] by blast
  have "channels_open (jsc_notificationCh c) (jsc_errorCh c) w1"
    using assms(3) by (simp add: channels_open_def invoke_handler_views [OF inv])
  then obtain w' where "finish_delivery E c msg rk ?info t0 r w1 = Some w'"
    using finish_delivery_defined by blast
  with inv show ?thesis
    by (simp add: handleDelivery_def js_delivery_info_def Let_def)
qed

lemma handleMessage_returns:
  assumes "jsc_spanNameFn c \<noteq> None"
    and "\<forall>h \<in> snd ` set (jsc_handlers c).
      returns_for (routing_key_of_subject (jm_Subject msg)) (jm_Data msg) (app w) h"
    and "channels_open (jsc_notificationCh c) (jsc_errorCh c) w"
  shows "\<exists>w'. handleMessage E c msg w = Some w'"
proof -
  let ?k = "routing_key_of_subject (jm_Subject msg)"
  let ?w0 = "eventReceived (jsc_name c) ?k w"
  have open0: "channels_open (jsc_notificationCh c) (jsc_errorCh c) ?w0"
    using assms(3) by (simp add: channels_open_def)
  have "\<exists>w'. handleDelivery E c h msg ?k ?w0 = Some w'"
    if "rkh_get E r (jsc_handlers c) ?k = Some h" for r h
    using bspec [OF assms(2) rkh_get_member [OF that]]
    by (intro handleDelivery_defined [OF assms(1) _ open0]) simp
  then show ?thesis
    by (auto simp: handleMessage_def Let_def split: option.split)
qed

lemma handleMessage_defined:
  assumes "jsc_spanNameFn c \<noteq> None" and "\<forall>h \<in> snd ` set (jsc_handlers c). total_handler h"
    and "channels_open (jsc_notificationCh c) (jsc_errorCh c) w"
  shows "\<exists>w'. handleMessage E c msg w = Some w'"
  using assms(2) by (intro handleMessage_returns [OF assms(1) _ assms(3)]) (simp add: total_returns_for)

section \<open>Core messages\<close>

text \<open>The delivery information made of a Core NATS message.\<close>

definition core_delivery_info ::
  "'x ext \<Rightarrow> string \<Rightarrow> nats_msg \<Rightarrow> string \<Rightarrow> (string \<Rightarrow> nat) \<Rightarrow> 'x delivery_info" where
  "core_delivery_info E name msg routingKey rank =
     \<lparr>di_Destination = name, di_Source = msg_Subject msg, di_Key = routingKey,
      di_Headers = fromNATSHeaders E rank (msg_Header msg)\<rparr>"

text \<open>The replies to a handler error.\<close>

definition error_reply :: "'x ext \<Rightarrow> nats_msg \<Rightarrow> go_error \<Rightarrow> (string \<times> string) list" where
  "error_reply E msg err =
     (if msg_Reply msg \<noteq> '''' then [(msg_Reply msg, json_error_object (err_text E err))] else [])"

lemma respond_error_views [simp]:
  "replies (trace (respond_error E msg e w)) = replies (trace w) @ error_reply E msg e"
  "settlements (trace (respond_error E msg e w)) = settlements (trace w)"
  "invocations (trace (respond_error E msg e w)) = invocations (trace w)"
  "counters (trace (respond_error E msg e w)) = counters (trace w)"
  "routingKeyMapperVal (respond_error E msg e w) = routingKeyMapperVal w"
  by (simp_all add: respond_error_def error_reply_def)

lemma respond_error_cworld [simp]:
  "app (respond_error E msg e w) = app w"
  "nchans (respond_error E msg e w) = nchans w" "echans (respond_error E msg e w) = echans w"
  by (simp_all add: respond_error_def)

lemma finish_core_views:
  assumes "finish_core E c msg rk info t0 result w = Some w'"
  shows "settlements (trace w') = settlements (trace w)"
    and "invocations (trace w') = invocations (trace w)"
    and "counters (trace w') = counters (trace w)
       @ [(if result = None then eventAckCounter else eventNakCounter,
           [jsc_name c, routingKeyLabel w rk])]"
    and "replies (trace w') = replies (trace w)
       @ (case result of None \<Rightarrow> [] | Some e \<Rightarrow> error_reply E msg e)"
    and "app w' = app w" and "routingKeyMapperVal w' = routingKeyMapperVal w"
  using assms
  by (auto simp: finish_core_def Let_def bind_eq_Some_conv notify_failed_frame
      notify_succeed_frame routingKeyLabel_def split: option.splits)

lemma handleCoreMessage_views:
  fixes w w' :: "('x, 'app, 'w) cworld_scheme"
  assumes "handleCoreMessage E c msg k w = Some w'"
  defines "w0 \<equiv> eventReceived (jsc_name c) k w"
  defines "info \<equiv> core_delivery_info E (jsc_name c) msg k (map_rank E (trace w0) ''fromNATSHeaders'')"
  defines "labels \<equiv> [jsc_name c, routingKeyLabel w k]"
  obtains (Unhandled)
    "rkh_get E (map_rank E (trace w0) ''get'') (jsc_handlers c) k = None"
    "settlements (trace w') = settlements (trace w)" "invocations (trace w') = invocations (trace w)"
    "replies (trace w') = replies (trace w)" "app w' = app w"
    "counters (trace w') = counters (trace w)
       @ [(eventReceivedCounter, labels), (eventWithoutHandlerCounter, labels)]"
  | (Handled) h ctx result where
    "rkh_get E (map_rank E (trace w0) ''get'') (jsc_handlers c) k = Some h"
    "h ctx (event_of E info (msg_Data msg)) (app w) = Some (result, app w')"
    "settlements (trace w') = settlements (trace w)"
    "invocations (trace w') = invocations (trace w) @ [event_of E info (msg_Data msg)]"
    "replies (trace w') = replies (trace w)
       @ (case result of None \<Rightarrow> [] | Some e \<Rightarrow> error_reply E msg e)"
    "counters (trace w') = counters (trace w)
       @ [(eventReceivedCounter, labels),
          (if result = None then eventAckCounter else eventNakCounter, labels)]"
proof (cases "rkh_get E (map_rank E (trace w0) ''get'') (jsc_handlers c) k")
  case None
  then have "w' = eventWithoutHandler (jsc_name c) k
      (log_at LevelWarn ''no handler for routing key'' w0)"
    using assms(1) by (simp add: handleCoreMessage_def Let_def w0_def)
  with None show ?thesis
    by (intro that(1)) (simp_all add: w0_def labels_def routingKeyLabel_def)
next
  case (Some h)
  then obtain result t0 w1 where
    inv: "invoke_handler E c info (msg_Header msg) (msg_Data msg) h w0 = Some (result, t0, w1)"
    and fin: "finish_core E c msg k info t0 result w1 = Some w'"
    using assms(1) by (auto simp: handleCoreMessage_def info_def core_delivery_info_def Let_def
        w0_def bind_eq_Some_conv)
  note iv = invoke_handler_views [OF inv] and fv = finish_core_views [OF fin]
  obtain ctx where "h ctx (event_of E info (msg_Data msg)) (app w0) = Some (result, app w1)"
    using iv(8) by blast
  then have "h ctx (event_of E info (msg_Data msg)) (app w) = Some (result, app w')"
    by (simp add: fv(5) w0_def)
  moreover have "routingKeyLabel w1 k = routingKeyLabel w k"
    by (rule routingKeyLabel_cong) (simp add: iv w0_def)
  ultimately show ?thesis
    using Some by (intro that(2) [of h ctx result]) (simp_all add: iv fv w0_def labels_def)
qed

section \<open>Properties\<close>

text \<open>
  C1: Every JetStream message is settled exactly once, as the handler's result demands. As long as
  the consumer has a span name function, its handlers do not panic and its channels are open,
  \<open>handleMessage\<close> returns. A message that no registered pattern matches is terminated without a
  handler being called; any other is given, decoded into one event, to one handler that is
  registered for it, and is acknowledged on success, terminated on a parse or type mapping error
  however deeply wrapped, and negatively acknowledged on any other error. The application state is
  the handler's, the message is counted as received, and one counter records the outcome.
\<close>

theorem handleMessage_correct:
  fixes w :: "('x, 'app, 'w) cworld_scheme"
  assumes "jsc_spanNameFn c \<noteq> None" and "\<forall>h \<in> snd ` set (jsc_handlers c). total_handler h"
    and "channels_open (jsc_notificationCh c) (jsc_errorCh c) w"
  shows "let k = routing_key_of_subject (jm_Subject msg);
             t0 = trace (eventReceived (jsc_name c) k w);
             labels = [jsc_name c, routingKeyLabel w k];
             ev = event_of E (js_delivery_info E c msg k (map_rank E t0 ''fromNATSHeaders''))
                    (jm_Data msg)
         in \<exists>w'. handleMessage E c msg w = Some w' \<and>
              (case rkh_get E (map_rank E t0 ''get'') (jsc_handlers c) k of
                 None \<Rightarrow>
                   app w' = app w \<and> invocations (trace w') = invocations (trace w) \<and>
                   settlements (trace w') = settlements (trace w) @ [(jm_Id msg, Terminated)] \<and>
                   counters (trace w') = counters (trace w)
                     @ [(eventReceivedCounter, labels), (eventWithoutHandlerCounter, labels)]
               | Some h \<Rightarrow>
                   \<exists>ctx result. h ctx ev (app w) = Some (result, app w') \<and>
                     invocations (trace w') = invocations (trace w) @ [ev] \<and>
                     settlements (trace w') = settlements (trace w) @ [(jm_Id msg, decide result)] \<and>
                     counters (trace w') = counters (trace w)
                       @ [(eventReceivedCounter, labels), (outcome_counter result, labels)])"
proof -
  obtain w' where w': "handleMessage E c msg w = Some w'"
    using handleMessage_defined [OF assms] by blast
  from w' show ?thesis
    unfolding Let_def
    by (cases rule: handleMessage_views) (use w' in \<open>auto intro!: exI [of _ w']\<close>)
qed

definition demo_consumer :: "(unit, nat) jsConsumer" where
  "demo_consumer =
     \<lparr>jsc_name = ''svc'', jsc_stream = ''events'', jsc_serviceName = ''svc'',
      jsc_handlers = [(''Order.Created'', \<lambda>_ ev s. Some
         (if ue_Payload ev = ''bad'' then Some (parse_error (\<lambda>_. '''') (Plain ''eof'')) else None, s + 1))],
      jsc_notificationCh = Some 0, jsc_errorCh = None, jsc_spanNameFn = Some (\<lambda>_. ''span''),
      jsc_tracer = None, jsc_propagator = None\<rparr>"

definition demo_js_msg :: "nat \<Rightarrow> string \<Rightarrow> js_msg" where
  "demo_js_msg i payload =
     \<lparr>jm_Id = i, jm_Subject = ''events.Order.Created'', jm_Headers = [], jm_Data = payload\<rparr>"

lemma demo_consumer_ok:
  "jsc_spanNameFn demo_consumer \<noteq> None"
  "\<forall>h \<in> snd ` set (jsc_handlers demo_consumer). total_handler h"
  "channels_open (jsc_notificationCh demo_consumer) (jsc_errorCh demo_consumer) demo_cworld"
  by (simp_all add: demo_consumer_def total_handler_def channels_open_def demo_cworld_def
      demo_chan_def)

theorem handleMessage_correct_witness:
  "\<exists>w'. handleMessage demo_ext demo_consumer (demo_js_msg 7 ''bad'') demo_cworld = Some w' \<and>
     settlements (trace w') = [(7, Terminated)]"
  using handleMessage_correct [OF demo_consumer_ok, of "demo_js_msg 7 ''bad''" demo_ext]
  by (auto simp: demo_consumer_def demo_js_msg_def demo_cworld_def demo_ext_def Let_def
      routing_key_of_subject_def rkh_get_def event_of_def decide_def)

text \<open>
  C16: A run over a sequence of messages settles each of them once, in the order in which they
  arrived, and the counters balance: as many messages are counted as received as there were
  messages, and as many as acknowledged, negatively acknowledged, without handler or not parsable.
\<close>

theorem run_settles_in_order:
  assumes "iterate (handleMessage E c) msgs w = Some w'"
  shows "map fst (settlements (trace w')) = map fst (settlements (trace w)) @ map jm_Id msgs \<and>
    length (filter (\<lambda>(d, _). d = eventReceivedCounter) (counters (trace w')))
      = length (filter (\<lambda>(d, _). d = eventReceivedCounter) (counters (trace w))) + length msgs \<and>
    length (filter (\<lambda>(d, _). d \<in> {eventAckCounter, eventNakCounter, eventWithoutHandlerCounter,
        eventNotParsableCounter}) (counters (trace w')))
      = length (filter (\<lambda>(d, _). d \<in> {eventAckCounter, eventNakCounter, eventWithoutHandlerCounter,
        eventNotParsableCounter}) (counters (trace w))) + length msgs"
  using settled.iterate_logs [OF assms] received.iterate_logs [OF assms, THEN arg_cong [of _ _ length]]
    concluded.iterate_logs [OF assms, THEN arg_cong [of _ _ length]]
  by (simp add: filter_map comp_def case_prod_unfold)

theorem run_settles_in_order_witness:
  "\<exists>w'. iterate (handleMessage demo_ext demo_consumer) [demo_js_msg 3 ''x'', demo_js_msg 5 ''bad'']
     demo_cworld = Some w' \<and> map fst (settlements (trace w')) = [3, 5]"
proof -
  obtain w1 where w1: "handleMessage demo_ext demo_consumer (demo_js_msg 3 ''x'') demo_cworld = Some w1"
    using handleMessage_defined [OF demo_consumer_ok] by blast
  have "\<not> ch_closed (nchans w1 0)"
    using w1 by (simp add: handleMessage_def handleDelivery_def invoke_handler_def
        finish_delivery_def notifyEventHandlerSucceed_def try_send_def demo_consumer_def
        demo_js_msg_def demo_cworld_def demo_chan_def demo_ext_def routing_key_of_subject_def
        rkh_get_def Let_def bind_eq_Some_conv) (auto simp: eventAck_def emit_def Let_def)
  then have "channels_open (jsc_notificationCh demo_consumer) (jsc_errorCh demo_consumer) w1"
    by (simp add: channels_open_def demo_consumer_def)
  then obtain w2 where "handleMessage demo_ext demo_consumer (demo_js_msg 5 ''bad'') w1 = Some w2"
    using handleMessage_defined [OF demo_consumer_ok(1,2)] by blast
  with w1 have run: "iterate (handleMessage demo_ext demo_consumer)
      [demo_js_msg 3 ''x'', demo_js_msg 5 ''bad''] demo_cworld = Some w2"
    by simp
  from run_settles_in_order [OF run] run show ?thesis
    by (auto simp: demo_cworld_def demo_js_msg_def)
qed

text \<open>
  C21: A message whose payload does not decode is never redelivered. If the only pattern that the
  consumer registered matches and its typed handler's payload type cannot be decoded from the
  message, the message is terminated and counted as not parsable, and the application state is
  untouched: the typed handler never runs.
\<close>

theorem undecodable_message_terminated:
  fixes w :: "('x, 'app, 'w) cworld_scheme"
  assumes "handleMessage E c msg w = Some w'"
    and "jsc_handlers c = [(p, newWrappedHandler E T user)]"
    and "spec_MatchRoutingKey E p (routing_key_of_subject (jm_Subject msg))"
    and "\<not> ty_IsInterface T" and "ty_String T \<noteq> ''json.RawMessage''"
    and "ty_Unmarshal T (jm_Data msg) = Inl err"
  shows "settlements (trace w') = settlements (trace w) @ [(jm_Id msg, Terminated)] \<and>
         app w' = app w \<and>
         last (counters (trace w')) = (eventNotParsableCounter,
           [jsc_name c, routingKeyLabel w (routing_key_of_subject (jm_Subject msg))])"
  using assms(1)
proof (cases rule: handleMessage_views)
  case Unhandled
  with assms(2,3) show ?thesis by (simp add: rkh_get_def)
next
  case (Handled h ctx result)
  from Handled(1) assms(2,3) have "h = newWrappedHandler E T user"
    by (simp add: rkh_get_def)
  with Handled(2) assms(4-6) have "result = Some (parse_error (ext_error_text E) err)" "app w' = app w"
    by (simp_all add: newWrappedHandler_def event_of_def)
  with Handled(3,5) show ?thesis
    by (simp add: decide_def outcome_counter_def)
qed

theorem undecodable_message_terminated_witness:
  "\<exists>w'. handleMessage demo_ext (demo_consumer\<lparr>jsc_handlers := [(''Order.Created'',
        newWrappedHandler demo_ext demo_type (\<lambda>_ _ s. Some (None, s + 1)))]\<rparr>)
       (demo_js_msg 4 ''x'') demo_cworld = Some w' \<and>
     settlements (trace w') = [(4, Terminated)] \<and> app w' = 0"
proof -
  let ?h = "newWrappedHandler demo_ext demo_type (\<lambda>_ _ s. Some (None, s + 1))
    :: (unit, nat) wrappedHandler"
  let ?c = "demo_consumer\<lparr>jsc_handlers := [(''Order.Created'', ?h)]\<rparr>"
  have "total_handler ?h"
    by (simp add: total_handler_def newWrappedHandler_def demo_type_def split: sum.split)
  then obtain w' where w': "handleMessage demo_ext ?c (demo_js_msg 4 ''x'') demo_cworld = Some w'"
    using handleMessage_defined [of ?c demo_cworld] demo_consumer_ok
    by (auto simp: demo_consumer_def)
  from undecodable_message_terminated [OF w', of "''Order.Created''" demo_type] w' show ?thesis
    by (auto simp: demo_js_msg_def demo_type_def demo_ext_def demo_cworld_def
        routing_key_of_subject_def)
qed

text \<open>The wrapped handler of a consumer with a type mapper, at a key the mapper knows something of.\<close>

lemma type_mapped_handler:
  assumes "ty_IsInterface T" and "ty_AssertRaw T = (\<lambda>raw. Some (RawMessage raw))"
    and "mapper k = (ty, found)" and "di_Key (ue_DeliveryInfo ev) = k"
  shows "newWrappedHandler E T (TypeMappingHandler E handler (Some mapper)) ctx ev s
    = (if \<not> found then Some (Some (Known ErrNoMessageTypeForRouteKey), s)
       else case Option.bind ty rt_Elem of
         None \<Rightarrow> None
       | Some unmarshal \<Rightarrow>
           (case unmarshal (ue_Payload ev) of
              Inl err \<Rightarrow> Some (Some (parse_error (ext_error_text E) err), s)
            | Inr v \<Rightarrow> handler ctx \<lparr>ce_Metadata = ue_Metadata ev,
                ce_DeliveryInfo = ue_DeliveryInfo ev, ce_Payload = AnyPayload v\<rparr> s))"
  using assms by (cases ty)
    (simp_all add: newWrappedHandler_def TypeMappingHandler_def split: option.split sum.split)

text \<open>Processing when one handler is found whatever the order of the table.\<close>

lemma handleMessage_by:
  fixes w :: "('x, 'app, 'w) cworld_scheme"
  assumes "\<And>rank. rkh_get E rank (jsc_handlers c) (routing_key_of_subject (jm_Subject msg)) = Some h"
    and "handleMessage E c msg w = Some w'"
  shows "\<exists>ctx ev result. h ctx ev (app w) = Some (result, app w') \<and>
    di_Key (ue_DeliveryInfo ev) = routing_key_of_subject (jm_Subject msg) \<and>
    ue_Payload ev = jm_Data msg \<and>
    settlements (trace w') = settlements (trace w) @ [(jm_Id msg, decide result)] \<and>
    last (counters (trace w'))
      = (outcome_counter result, [jsc_name c, routingKeyLabel w (routing_key_of_subject (jm_Subject msg))])"
  using assms(2)
proof (cases rule: handleMessage_views)
  case Unhandled
  with assms(1) show ?thesis by simp
next
  case (Handled h' ctx result)
  with assms(1) show ?thesis by (fastforce simp: event_of_def js_delivery_info_def)
qed

text \<open>A consumer with a single handler processes a matching message with it, unless it panics.\<close>

lemma single_handler_run:
  assumes "jsc_handlers c = [(p, h)]" and "jsc_spanNameFn c \<noteq> None"
    and "spec_MatchRoutingKey E p (routing_key_of_subject (jm_Subject msg))"
    and "channels_open (jsc_notificationCh c) (jsc_errorCh c) w"
    and "returns_for (routing_key_of_subject (jm_Subject msg)) (jm_Data msg) (app w) h"
  obtains w' ctx ev result where "handleMessage E c msg w = Some w'"
    and "h ctx ev (app w) = Some (result, app w')"
    and "di_Key (ue_DeliveryInfo ev) = routing_key_of_subject (jm_Subject msg)"
    and "ue_Payload ev = jm_Data msg"
    and "settlements (trace w') = settlements (trace w) @ [(jm_Id msg, decide result)]"
    and "last (counters (trace w')) = (outcome_counter result,
      [jsc_name c, routingKeyLabel w (routing_key_of_subject (jm_Subject msg))])"
proof -
  have get: "rkh_get E rank (jsc_handlers c) (routing_key_of_subject (jm_Subject msg)) = Some h" for rank
    using assms(1,3) by (simp add: rkh_get_def)
  obtain w' where w': "handleMessage E c msg w = Some w'"
    using handleMessage_returns [OF assms(2) _ assms(4)] assms(1,5) by fastforce
  from handleMessage_by [OF get this] that [OF w'] show thesis by blast
qed

text \<open>
  C22: A consumer of untyped events with a type mapper, for every message. Without a type for the
  routing key the message is terminated, counted as without handler, and the handler is not called;
  a payload that does not decode into the mapped type is terminated and counted as not parsable;
  otherwise the handler is called once with the decoded value and its result settles the message. A
  mapper that returns a type without an element type, such as a struct type, makes processing panic
  and the message stay unsettled.
\<close>

theorem type_mapped_message:
  fixes w :: "('x, 'app, 'w) cworld_scheme" and T :: "'x any_payload go_type"
  assumes "jsc_handlers c = [(p, newWrappedHandler E T (TypeMappingHandler E handler (Some mapper)))]"
    and "ty_IsInterface T" and "ty_AssertRaw T = (\<lambda>raw. Some (RawMessage raw))"
    and "spec_MatchRoutingKey E p (routing_key_of_subject (jm_Subject msg))"
    and "jsc_spanNameFn c \<noteq> None" and "channels_open (jsc_notificationCh c) (jsc_errorCh c) w"
    and "\<And>ctx ev s. handler ctx ev s \<noteq> None"
  shows "let k = routing_key_of_subject (jm_Subject msg);
             settled = (\<lambda>w' d. handleMessage E c msg w = Some w' \<and>
               settlements (trace w') = settlements (trace w) @ [(jm_Id msg, d)]);
             counted = (\<lambda>w' m. last (counters (trace w')) = (m, [jsc_name c, routingKeyLabel w k]))
         in case mapper k of (ty, found) \<Rightarrow>
           if \<not> found then \<exists>w'. settled w' Terminated \<and> app w' = app w \<and>
             counted w' eventWithoutHandlerCounter
           else (case Option.bind ty rt_Elem of
             None \<Rightarrow> handleMessage E c msg w = None
           | Some unmarshal \<Rightarrow>
               (case unmarshal (jm_Data msg) of
                  Inl err \<Rightarrow> \<exists>w'. settled w' Terminated \<and> app w' = app w \<and>
                    counted w' eventNotParsableCounter
                | Inr v \<Rightarrow> \<exists>w' ctx ev result. settled w' (decide result) \<and>
                    handler ctx ev (app w) = Some (result, app w') \<and>
                    ce_Payload ev = AnyPayload v \<and> di_Key (ce_DeliveryInfo ev) = k))"
proof -
  let ?k = "routing_key_of_subject (jm_Subject msg)"
  let ?h = "newWrappedHandler E T (TypeMappingHandler E handler (Some mapper))"
  let ?ev = "\<lambda>ev p. \<lparr>ce_Metadata = ue_Metadata ev, ce_DeliveryInfo = ue_DeliveryInfo ev, ce_Payload = p\<rparr>"
  obtain ty found where m: "mapper ?k = (ty, found)" by fastforce
  note h = type_mapped_handler [where mapper = mapper and E = E and handler = handler, OF assms(2,3) m]
  show ?thesis
  proof (cases "found \<and> Option.bind ty rt_Elem = None")
    case True
    have "rkh_get E rank (jsc_handlers c) ?k = Some ?h" for rank
      using assms(1,4) by (simp add: rkh_get_def)
    from handleMessage_by [OF this] True h have "handleMessage E c msg w = None"
      by (cases "handleMessage E c msg w") fastforce+
    with True m show ?thesis by (simp add: Let_def)
  next
    case defined: False
    then have "returns_for ?k (jm_Data msg) (app w) ?h"
      using assms(7) by (auto simp: returns_for_def h split: sum.split)
    from single_handler_run [OF assms(1,5,4,6) this] obtain w' ctx ev result where
      w': "handleMessage E c msg w = Some w'" and r: "?h ctx ev (app w) = Some (result, app w')"
      "di_Key (ue_DeliveryInfo ev) = ?k" "ue_Payload ev = jm_Data msg"
      "settlements (trace w') = settlements (trace w) @ [(jm_Id msg, decide result)]"
      "last (counters (trace w')) = (outcome_counter result, [jsc_name c, routingKeyLabel w ?k])"
      by blast
    note run = r(1) [unfolded h [OF r(2), of ctx "app w", unfolded r(3)]]
    show ?thesis
    proof (cases "found \<and> \<not> isl (the (Option.bind ty rt_Elem) (jm_Data msg))")
      case True
      with defined obtain unmarshal v where
        "Option.bind ty rt_Elem = Some unmarshal" "unmarshal (jm_Data msg) = Inr v"
        by (cases "the (Option.bind ty rt_Elem) (jm_Data msg)") auto
      with True run w' r(2,4) m show ?thesis
        by (auto simp: Let_def intro!: exI [of _ ctx] exI [of _ "?ev ev (AnyPayload v)"] exI [of _ result])
    next
      case False
      with defined run w' r(4,5) m show ?thesis
        by (auto simp: Let_def decide_def outcome_counter_def split: sum.splits if_splits)
    qed
  qed
qed

theorem type_mapped_message_witness:
  "handleMessage demo_ext (demo_consumer\<lparr>jsc_handlers := [(''Order.Created'', newWrappedHandler demo_ext
        \<lparr>ty_IsInterface = True, ty_String = '''', ty_AssertRaw = (\<lambda>raw. Some (RawMessage raw)),
         ty_Unmarshal = (\<lambda>_. Inl (Plain ''unused''))\<rparr>
        (TypeMappingHandler demo_ext (\<lambda>_ _ s. Some (None, s + 1))
          (Some (\<lambda>_. (Some \<lparr>rt_Elem = None\<rparr>, True)))))]\<rparr>)
     (demo_js_msg 4 ''x'') demo_cworld = None"
proof -
  let ?T = "\<lparr>ty_IsInterface = True, ty_String = '''', ty_AssertRaw = (\<lambda>raw. Some (RawMessage raw)),
    ty_Unmarshal = (\<lambda>_. Inl (Plain ''unused''))\<rparr> :: unit any_payload go_type"
  let ?m = "\<lambda>_. (Some \<lparr>rt_Elem = None\<rparr>, True) :: unit reflect_type option \<times> bool"
  let ?c = "demo_consumer\<lparr>jsc_handlers := [(''Order.Created'', newWrappedHandler demo_ext ?T
    (TypeMappingHandler demo_ext (\<lambda>_ _ s. Some (None, s + 1)) (Some ?m)))]\<rparr>"
  have "jsc_handlers ?c = [(''Order.Created'', newWrappedHandler demo_ext ?T
      (TypeMappingHandler demo_ext (\<lambda>_ _ s. Some (None, s + 1)) (Some ?m)))]" by simp
  from type_mapped_message [OF this, of "demo_js_msg 4 ''x''" demo_cworld] demo_consumer_ok
  show ?thesis
    by (simp add: demo_js_msg_def demo_ext_def routing_key_of_subject_def)
qed

text \<open>
  C23: A Core NATS request is never settled, and is answered only when it fails: a handler error is
  sent to the reply subject as a JSON error object, if there is a reply subject. A handler that
  succeeds sends no reply, so a requester that waits for one gets none.
\<close>

theorem handleCoreMessage_replies:
  fixes w :: "('x, 'app, 'w) cworld_scheme"
  assumes "handleCoreMessage E c msg k w = Some w'"
  shows "settlements (trace w') = settlements (trace w) \<and>
    (case rkh_get E (map_rank E (trace (eventReceived (jsc_name c) k w)) ''get'') (jsc_handlers c) k of
       None \<Rightarrow> replies (trace w') = replies (trace w) \<and> app w' = app w
     | Some h \<Rightarrow> \<exists>ctx ev result. h ctx ev (app w) = Some (result, app w') \<and>
         ue_Payload ev = msg_Data msg \<and> di_Key (ue_DeliveryInfo ev) = k \<and>
         replies (trace w') = replies (trace w) @
           (case result of
              Some err \<Rightarrow> if msg_Reply msg \<noteq> ''''
                then [(msg_Reply msg, json_error_object (err_text E err))] else []
            | None \<Rightarrow> []))"
  using assms
proof (cases rule: handleCoreMessage_views)
  case Unhandled
  then show ?thesis by simp
next
  case (Handled h ctx result)
  let ?info = "core_delivery_info E (jsc_name c) msg k
    (map_rank E (trace (eventReceived (jsc_name c) k w)) ''fromNATSHeaders'')"
  have "ue_Payload (event_of E ?info (msg_Data msg)) = msg_Data msg"
    "di_Key (ue_DeliveryInfo (event_of E ?info (msg_Data msg))) = k"
    by (simp_all add: event_of_def core_delivery_info_def)
  with Handled show ?thesis
    unfolding error_reply_def by (intro conjI) (simp, simp only: option.case, blast)
qed

theorem handleCoreMessage_replies_witness:
  "\<exists>w'. handleCoreMessage demo_ext demo_consumer
       \<lparr>msg_Subject = ''svc.request.Order.Created'', msg_Reply = ''_INBOX.1'', msg_Header = [],
        msg_Data = ''x''\<rparr> ''Order.Created'' demo_cworld = Some w' \<and> replies (trace w') = []"
proof -
  let ?msg = "\<lparr>msg_Subject = ''svc.request.Order.Created'', msg_Reply = ''_INBOX.1'', msg_Header = [],
        msg_Data = ''x''\<rparr>"
  obtain w' where w': "handleCoreMessage demo_ext demo_consumer ?msg ''Order.Created'' demo_cworld
      = Some w'"
    by (simp add: handleCoreMessage_def invoke_handler_def finish_core_def
        notifyEventHandlerSucceed_def try_send_def demo_consumer_def demo_cworld_def demo_chan_def
        demo_ext_def rkh_get_def Let_def)
  from handleCoreMessage_replies [OF w'] w' show ?thesis
    by (auto simp: demo_consumer_def demo_ext_def rkh_get_def demo_cworld_def)
qed

text \<open>
  C34: Every handled message is announced once, on the right channel, and announcing never blocks. A
  success goes to the notification channel and leaves the error channels alone, an error goes with
  its value to the error channel and leaves the notification channels alone; each carries the delivery
  it is about. The announcement becomes the newest value of the channel if a receiver waits or the
  buffer has room, and is dropped otherwise without displacing an older one. A message without a
  handler is not announced, and no channel ever exceeds its capacity.
\<close>

theorem handleMessage_announces:
  assumes "handleMessage E c msg w = Some w'" and "channels_ok w"
  shows "let k = routing_key_of_subject (jm_Subject msg);
             t0 = trace (eventReceived (jsc_name c) k w);
             info = js_delivery_info E c msg k (map_rank E t0 ''fromNATSHeaders'')
         in channels_ok w' \<and>
            (case rkh_get E (map_rank E t0 ''get'') (jsc_handlers c) k of
               None \<Rightarrow> nchans w' = nchans w \<and> echans w' = echans w
             | Some h \<Rightarrow>
                 \<exists>ctx result took. h ctx (event_of E info (jm_Data msg)) (app w) = Some (result, app w') \<and>
                   announced c info took result w w')"
  using assms(1) unfolding Let_def
  by (cases rule: handleMessage_views) (use assms(2) channels_ok_cong [of w' w] in auto)

theorem handleMessage_announces_witness:
  "\<exists>w'. handleMessage demo_ext demo_consumer (demo_js_msg 7 ''x'') demo_cworld = Some w' \<and>
     length (chan_values (nchans w' 0)) = 1 \<and> echans w' = echans demo_cworld"
proof -
  obtain w' where run: "handleMessage demo_ext demo_consumer (demo_js_msg 7 ''x'') demo_cworld = Some w'"
    using handleMessage_defined [OF demo_consumer_ok] by blast
  from handleMessage_announces [OF this demo_channels_ok]
  have "length (chan_values (nchans w' 0)) = 1 \<and> echans w' = echans demo_cworld"
    by (auto simp: announced_def offered_at_def offered_def demo_consumer_def demo_js_msg_def
        demo_cworld_def demo_ext_def Let_def routing_key_of_subject_def rkh_get_def event_of_def
        demo_chan_simps)
  with run show ?thesis by blast
qed

end
