(* ===== verification/Publisher.thy ===== *)
theory Publisher
  imports Naming Headers Metrics Tracing Consumer
begin

text \<open>
  \<open>publisher.go\<close> and \<open>outbox_adapter.go\<close>: publishers, the publication of a message with its
  CloudEvents headers, and the adapter that publishes messages serialized before. A publisher is
  mutable and shared by address; publishing only reads it, so the operations here take its value.
  \<open>expected_header\<close> is the abstract description of the headers on the wire.
\<close>

section \<open>Definitions\<close>

definition contentType :: string where
  "contentType = ''application/json''"

text \<open>The two functions a setup stores in \<open>publishFn\<close>, with what they capture.\<close>

datatype publish_fn = JsPublish | CoreRequest int

record 'x Publisher =
  p_conn :: bool
  p_stream :: string
  p_serviceName :: string
  p_defaultHeaders :: "Header list"
  p_tracer :: "'x option"
  p_propagator :: "'x option"
  p_spanNameFn :: "(string \<Rightarrow> string \<Rightarrow> string) option"
  p_publishFn :: "publish_fn option"
  p_subjectFn :: "(string \<Rightarrow> string \<Rightarrow> string) option"

definition NewPublisher :: "'x Publisher" where
  "NewPublisher =
     \<lparr>p_conn = False, p_stream = '''', p_serviceName = '''', p_defaultHeaders = [],
      p_tracer = None, p_propagator = None, p_spanNameFn = None, p_publishFn = None,
      p_subjectFn = None\<rparr>"

definition jsPublishFn ::
  "'x ext \<Rightarrow> nats_msg \<Rightarrow> ('x, 'w) world_scheme \<Rightarrow> go_error option \<times> ('x, 'w) world_scheme" where
  "jsPublishFn E msg w = perform E (PublishMsg msg) w"

definition coreRequestFn ::
  "'x ext \<Rightarrow> int \<Rightarrow> nats_msg \<Rightarrow> ('x, 'w) world_scheme \<Rightarrow> go_error option \<times> ('x, 'w) world_scheme"
where
  "coreRequestFn E timeout msg w = perform E (RequestMsg msg timeout) w"

fun call_publishFn ::
  "'x ext \<Rightarrow> publish_fn \<Rightarrow> nats_msg \<Rightarrow> ('x, 'w) world_scheme
   \<Rightarrow> go_error option \<times> ('x, 'w) world_scheme" where
  "call_publishFn E JsPublish msg w = jsPublishFn E msg w"
| "call_publishFn E (CoreRequest timeout) msg w = coreRequestFn E timeout msg w"

text \<open>\<open>fn := subjectName; if p.subjectFn != nil { fn = p.subjectFn }\<close>, applied.\<close>

definition publish_subject :: "'x ext \<Rightarrow> 'x Publisher \<Rightarrow> string \<Rightarrow> string" where
  "publish_subject E p routingKey =
     (case p_subjectFn p of Some fn \<Rightarrow> fn | None \<Rightarrow> subjectName E) (p_stream p) routingKey"

definition set_default :: "'x ext \<Rightarrow> string \<Rightarrow> string \<Rightarrow> nats_header \<Rightarrow> nats_header" where
  "set_default E key value headers =
     (if header_get E headers key = '''' then header_set E headers key value else headers)"

text \<open>The message identifier and the CloudEvents headers \<open>publishMessage\<close> fills in, \<open>t\<close> being the history when it reads the
  clock and draws the identifier.\<close>

definition ce_headers ::
  "'x ext \<Rightarrow> 'x Publisher \<Rightarrow> string \<Rightarrow> 'x call list \<Rightarrow> nats_header \<Rightarrow> string \<times> nats_header"
where
  "ce_headers E p routingKey t headers =
     (let headers = set_default E (spec_CESpecVersion E) (spec_CESpecVersionValue E) headers;
          headers = set_default E (spec_CEType E) routingKey headers;
          headers = set_default E (spec_CESource E) (p_serviceName p) headers;
          headers = set_default E (spec_CEDataContentType E) contentType headers;
          headers = set_default E (spec_CETime E) (now_rfc3339 E t) headers;
          messageID = (if header_get E headers (spec_CEID E) \<noteq> ''''
                       then header_get E headers (spec_CEID E) else uuid_New E t)
      in (messageID, header_set E headers (spec_CEID E) messageID))"

text \<open>What follows the call of \<open>publishFn\<close>: status of the span, metrics, result.\<close>

definition finish_publish ::
  "'x ext \<Rightarrow> 'x Publisher \<Rightarrow> string \<Rightarrow> int \<Rightarrow> go_error option
   \<Rightarrow> ('x, 'w) world_scheme \<Rightarrow> go_error option \<times> ('x, 'w) world_scheme" where
  "finish_publish E p routingKey elapsed result w =
     (case result of
        Some err \<Rightarrow>
          (let w = emit (SpanRecordError err) w;
               w = emit (SpanSetStatus StatusError (err_text E err)) w;
               w = eventPublishFailed (p_stream p) routingKey elapsed w
           in (Some err, emit SpanEnd w))
      | None \<Rightarrow>
          (let w = emit (SpanSetStatus StatusOk '''') w;
               w = eventPublishSucceed (p_stream p) routingKey elapsed w
           in (None, emit SpanEnd w)))"

definition publishMessage ::
  "'x ext \<Rightarrow> 'x Publisher \<Rightarrow> 'x \<Rightarrow> string \<Rightarrow> (go_error + string) \<Rightarrow> nats_header
   \<Rightarrow> ('x, 'w) world_scheme \<Rightarrow> (go_error option \<times> ('x, 'w) world_scheme) option" where
  "publishMessage E p ctx routingKey marshalled headers w =
     (let tracer = (case p_tracer p of Some t \<Rightarrow> t | None \<Rightarrow> tracerFromProvider E None);
          spanNameFn = (case p_spanNameFn p of Some f \<Rightarrow> f | None \<Rightarrow> defaultPublishSpanName);
          subject = publish_subject E p routingKey;
          spanAttrs = publishSpanAttributes (p_stream p) subject (p_serviceName p);
          spanName = spanNameFn (p_stream p) routingKey;
          ctx = tracer_Start E tracer ctx spanName;
          w = emit (SpanStart spanName SpanKindProducer spanAttrs) w
      in case marshalled of
           Inl err \<Rightarrow>
             (let w = emit (SpanRecordError err) w;
                  w = emit (SpanSetStatus StatusError (err_text E err)) w
              in Some (Some err, emit SpanEnd w))
         | Inr jsonBytes \<Rightarrow>
             do {
               let (messageID, headers) = ce_headers E p routingKey (trace w) headers;
               let w = emit (SpanSetAttributes
                     [(attrMessagingMessageID, AttrString messageID),
                      (attrMessagingBodySize, AttrInt (int (length jsonBytes)))]) w;
               let headers = injectToHeaders E (map_rank E (trace w) ''injectToHeaders'') ctx
                               headers (p_propagator p);
               let natsMsg = \<lparr>msg_Subject = subject, msg_Reply = '''', msg_Header = headers,
                              msg_Data = jsonBytes\<rparr>;
               let startTime = clock E (trace w);
               fn \<leftarrow> p_publishFn p;
               let (result, w) = call_publishFn E fn natsMsg w;
               let elapsed = milliseconds (clock E (trace w) - startTime);
               Some (finish_publish E p routingKey elapsed result w)
             })"

text \<open>The loop of \<open>Publish\<close> over the headers given by the caller.\<close>

fun add_headers :: "'x ext \<Rightarrow> Header list \<Rightarrow> nats_header \<Rightarrow> go_error + nats_header" where
  "add_headers E [] nh = Inr nh"
| "add_headers E (h # hs) nh =
     (case validateKey h of
        Some err \<Rightarrow> Inl err
      | None \<Rightarrow> add_headers E hs (header_set E nh (h_Key h) (h_Value h)))"

text \<open>\<open>Publish\<close>; \<open>marshal\<close> is \<open>json.Marshal\<close> at the dynamic type of the message.\<close>

definition Publish ::
  "'x ext \<Rightarrow> 'x Publisher \<Rightarrow> 'x \<Rightarrow> string \<Rightarrow> ('v \<Rightarrow> go_error + string) \<Rightarrow> 'v \<Rightarrow> Header list
   \<Rightarrow> ('x, 'w) world_scheme \<Rightarrow> (go_error option \<times> ('x, 'w) world_scheme) option" where
  "Publish E p ctx routingKey marshal msg headers w =
     (let natsHeaders = fold (\<lambda>h nh. header_set E nh (h_Key h) (h_Value h)) (p_defaultHeaders p) []
      in case add_headers E headers natsHeaders of
           Inl err \<Rightarrow> Some (Some err, w)
         | Inr natsHeaders \<Rightarrow> publishMessage E p ctx routingKey (marshal msg) natsHeaders w)"

definition publisher_setup ::
  "'x Publisher \<Rightarrow> string \<Rightarrow> string \<Rightarrow> 'x \<Rightarrow> 'x option \<Rightarrow> (string \<Rightarrow> string \<Rightarrow> string) option
   \<Rightarrow> 'x Publisher" where
  "publisher_setup p stream serviceName tracer prop spanNameFn =
     p\<lparr>p_conn := True, p_stream := stream, p_serviceName := serviceName, p_tracer := Some tracer,
       p_propagator := prop, p_spanNameFn := spanNameFn,
       p_defaultHeaders := p_defaultHeaders p @ [\<lparr>h_Key = headerService, h_Value = serviceName\<rparr>]\<rparr>"

section \<open>The outbox adapter\<close>

record 'x OutboxRawPublisher =
  o_publisher :: "'x Publisher"

definition NewOutboxRawPublisher :: "'x Publisher \<Rightarrow> 'x OutboxRawPublisher" where
  "NewOutboxRawPublisher publisher = \<lparr>o_publisher = publisher\<rparr>"

definition PublishRaw ::
  "'x ext \<Rightarrow> 'x OutboxRawPublisher \<Rightarrow> string \<Rightarrow> string \<Rightarrow> string gomap
   \<Rightarrow> ('x, 'w) world_scheme \<Rightarrow> go_error option \<times> ('x, 'w) world_scheme" where
  "PublishRaw E a routingKey payload headers w =
     (case p_publishFn (o_publisher a) of
        None \<Rightarrow> (Some (Known ErrPublisherNotWired), w)
      | Some fn \<Rightarrow>
          (let subject = publish_subject E (o_publisher a) routingKey;
               natsHdrs = fold (\<lambda>(k, v) h. header_set E h k v)
                            (range_order (map_rank E (trace w) ''PublishRaw'') headers) [];
               msg = \<lparr>msg_Subject = subject, msg_Reply = '''', msg_Header = natsHdrs,
                      msg_Data = payload\<rparr>
           in call_publishFn E fn msg w))"

section \<open>Views and abstract description\<close>

text \<open>The messages published, each with the timeout if it was sent as a request.\<close>

fun publication_of :: "'x call \<Rightarrow> (nats_msg \<times> int option) option" where
  "publication_of (PublishMsg m) = Some (m, None)"
| "publication_of (RequestMsg m t) = Some (m, Some t)"
| "publication_of _ = None"

definition publications :: "'x call list \<Rightarrow> (nats_msg \<times> int option) list" where
  "publications t = List.map_filter publication_of t"

lemma publications_simps [simp]:
  "publications (s @ t) = publications s @ publications t"
  "publications (c # t)
     = (case publication_of c of Some x \<Rightarrow> x # publications t | None \<Rightarrow> publications t)"
  "publications [] = []"
  by (simp_all add: publications_def map_filter_simps split: option.split)

fun publish_timeout :: "publish_fn \<Rightarrow> int option" where
  "publish_timeout JsPublish = None"
| "publish_timeout (CoreRequest t) = Some t"

text \<open>The value of a header key among the default headers and those of the caller: the last one.\<close>

definition chosen_header :: "Header list \<Rightarrow> string \<Rightarrow> string" where
  "chosen_header hs k =
     (case map_of (rev (map (\<lambda>h. (h_Key h, h_Value h)) hs)) k of Some v \<Rightarrow> v | None \<Rightarrow> '''')"

text \<open>
  The value of a header key on the wire: what the propagator injects; otherwise what was chosen, if
  it is not empty; otherwise the CloudEvents default for the key. \<open>now\<close> and \<open>uid\<close> are the
  formatted time and the fresh identifier, \<open>carrier\<close> what the propagator injects.
\<close>

definition expected_header ::
  "'x ext \<Rightarrow> 'x Publisher \<Rightarrow> string \<Rightarrow> Header list \<Rightarrow> string \<Rightarrow> string \<Rightarrow> string gomap \<Rightarrow> string \<Rightarrow> string"
where
  "expected_header E p routingKey headers now uid carrier k =
     (case map_of carrier k of
        Some v \<Rightarrow> v
      | None \<Rightarrow>
          (let v = chosen_header (p_defaultHeaders p @ headers) k
           in if v \<noteq> '''' then v
              else if k = spec_CESpecVersion E then spec_CESpecVersionValue E
              else if k = spec_CEType E then routingKey
              else if k = spec_CESource E then p_serviceName p
              else if k = spec_CEDataContentType E then contentType
              else if k = spec_CETime E then now
              else if k = spec_CEID E then uid
              else ''''))"

section \<open>Lemmas\<close>

lemma chosen_header_Nil [simp]: "chosen_header [] k = ''''"
  by (simp add: chosen_header_def)

lemma chosen_header_snoc:
  "chosen_header (hs @ [h]) k = (if k = h_Key h then h_Value h else chosen_header hs k)"
  by (simp add: chosen_header_def)

lemma header_get_fold_headers:
  assumes "header_laws E"
  shows "header_get E (fold (\<lambda>h nh. header_set E nh (h_Key h) (h_Value h)) hs []) k
       = chosen_header hs k"
  by (induction hs rule: rev_induct)
    (simp_all add: header_get_Nil header_get_set chosen_header_snoc assms)

lemma add_headers_eq:
  "add_headers E hs nh =
     (case List.find (\<lambda>h. validateKey h \<noteq> None) hs of
        Some h \<Rightarrow> Inl (the (validateKey h))
      | None \<Rightarrow> Inr (fold (\<lambda>h nh. header_set E nh (h_Key h) (h_Value h)) hs nh))"
  by (induction hs arbitrary: nh) (auto split: option.split)

lemma header_get_set_default:
  "header_laws E \<Longrightarrow> header_get E (set_default E k v h) k'
     = (if k' = k \<and> header_get E h k = '''' then v else header_get E h k')"
  by (simp add: set_default_def header_get_set)

lemma ce_headers_get:
  assumes "header_laws E" and "ce_names_law E"
  shows "header_get E (snd (ce_headers E p routingKey t h)) k
       = (if header_get E h k \<noteq> '''' then header_get E h k
          else if k = spec_CESpecVersion E then spec_CESpecVersionValue E
          else if k = spec_CEType E then routingKey
          else if k = spec_CESource E then p_serviceName p
          else if k = spec_CEDataContentType E then contentType
          else if k = spec_CETime E then now_rfc3339 E t
          else if k = spec_CEID E then uuid_New E t
          else '''')"
  using assms(2)
  by (auto simp: ce_headers_def Let_def header_get_set_default [OF assms(1)]
      header_get_set [OF assms(1)] ce_names_law_def ce_keys_def)

text \<open>The call that publishes, as a function of what \<open>publishFn\<close> captured.\<close>

fun publish_call :: "publish_fn \<Rightarrow> nats_msg \<Rightarrow> 'x call" where
  "publish_call JsPublish m = PublishMsg m"
| "publish_call (CoreRequest t) m = RequestMsg m t"

lemma call_publishFn_eq:
  "call_publishFn E fn m w = (answer E (trace w) (publish_call fn m), emit (publish_call fn m) w)"
  by (cases fn) (simp_all add: jsPublishFn_def coreRequestFn_def perform_def)

lemma publish_call_views [simp]:
  "publication_of (publish_call fn m) = Some (m, publish_timeout fn)"
  "settlement_of (publish_call fn m) = None" "counter_of (publish_call fn m) = None"
  by (cases fn; simp)+

lemma fst_finish_publish [simp]: "fst (finish_publish E p k ms r w) = r"
  by (simp add: finish_publish_def Let_def split: option.split)

lemma finish_publish_views [simp]:
  "publications (trace (snd (finish_publish E p k ms r w))) = publications (trace w)"
  "counters (trace (snd (finish_publish E p k ms r w))) = counters (trace w)
     @ [(if r = None then eventPublishSucceedCounter else eventPublishFailedCounter,
         [p_stream p, routingKeyLabel w k])]"
  by (simp_all add: finish_publish_def Let_def split: option.split)

lemma publishMessage_wired:
  assumes "p_publishFn p = Some fn"
  shows "\<exists>t0 t m ctx'. let r = answer E t (publish_call fn m) in \<exists>w'.
    publishMessage E p ctx k (Inr bytes) headers w = Some (r, w') \<and>
    publications (trace w') = publications (trace w) @ [(m, publish_timeout fn)] \<and>
    counters (trace w') = counters (trace w)
      @ [(if r = None then eventPublishSucceedCounter else eventPublishFailedCounter,
          [p_stream p, routingKeyLabel w k])] \<and>
    (\<exists>u. trace w' = t @ publish_call fn m # u) \<and>
    m = \<lparr>msg_Subject = publish_subject E p k, msg_Reply = '''',
         msg_Header = injectToHeaders E (map_rank E t ''injectToHeaders'') ctx'
           (snd (ce_headers E p k t0 headers)) (p_propagator p), msg_Data = bytes\<rparr>"
proof -
  define name where "name = (case p_spanNameFn p of Some f \<Rightarrow> f | None \<Rightarrow> defaultPublishSpanName)
    (p_stream p) k"
  define ctx' where "ctx' = tracer_Start E
    (case p_tracer p of Some t \<Rightarrow> t | None \<Rightarrow> tracerFromProvider E None) ctx name"
  define w0 where "w0 = emit (SpanStart name SpanKindProducer
    (publishSpanAttributes (p_stream p) (publish_subject E p k) (p_serviceName p))) w"
  define hs where "hs = ce_headers E p k (trace w0) headers"
  define w1 where "w1 = emit (SpanSetAttributes
    [(attrMessagingMessageID, AttrString (fst hs)),
     (attrMessagingBodySize, AttrInt (int (length bytes)))]) w0"
  define m where "m = \<lparr>msg_Subject = publish_subject E p k, msg_Reply = '''',
         msg_Header = injectToHeaders E (map_rank E (trace w1) ''injectToHeaders'') ctx'
           (snd hs) (p_propagator p), msg_Data = bytes\<rparr>"
  define w2 where "w2 = emit (publish_call fn m) w1"
  define r where "r = answer E (trace w1) (publish_call fn m)"
  define ms where "ms = milliseconds (clock E (trace w2) - clock E (trace w1))"
  define w' where "w' = snd (finish_publish E p k ms r w2)"
  have run: "publishMessage E p ctx k (Inr bytes) headers w = Some (r, w')"
    by (simp add: publishMessage_def Let_def assms call_publishFn_eq w'_def prod_eq_iff
        name_def ctx'_def w0_def r_def ms_def w2_def m_def w1_def hs_def case_prod_unfold)
  have trace: "\<exists>u. trace w' = trace w1 @ publish_call fn m # u"
    by (simp add: w'_def w2_def finish_publish_def Let_def split: option.split)
  have "publications (trace w') = publications (trace w) @ [(m, publish_timeout fn)]"
    "counters (trace w') = counters (trace w)
      @ [(if r = None then eventPublishSucceedCounter else eventPublishFailedCounter,
          [p_stream p, routingKeyLabel w k])]"
    by (simp_all add: w'_def w2_def w1_def w0_def)
  with run trace show ?thesis
    unfolding Let_def
    by (intro exI [of _ "trace w0"] exI [of _ "trace w1"] exI [of _ m] exI [of _ ctx'] exI [of _ w'])
      (simp add: r_def m_def hs_def)
qed

text \<open>Headers written by \<open>Set\<close> only: distinct keys, and nothing under any other key.\<close>

definition built_header :: "'x ext \<Rightarrow> nats_header \<Rightarrow> bool" where
  "built_header E h \<longleftrightarrow> gomap_ok h \<and> (\<forall>k. k \<notin> fst ` set h \<longrightarrow> header_get E h k = '''')"

lemma built_header_Nil: "header_laws E \<Longrightarrow> built_header E []"
  by (simp add: built_header_def gomap_ok_def header_get_Nil)

lemma built_header_set: "header_laws E \<Longrightarrow> built_header E h \<Longrightarrow> built_header E (header_set E h k v)"
  by (simp add: built_header_def header_ok_set header_keys_set header_get_set)

lemma built_header_fold:
  "header_laws E \<Longrightarrow> built_header E h \<Longrightarrow>
   built_header E (fold (\<lambda>x nh. header_set E nh (f x) (g x)) xs h)"
  by (induction xs arbitrary: h) (simp_all add: built_header_set)

lemma built_header_inject:
  "header_laws E \<Longrightarrow> built_header E h \<Longrightarrow> built_header E (injectToHeaders E rank ctx h p)"
  unfolding injectToHeaders_def case_prod_unfold by (rule built_header_fold)

lemma built_header_ce:
  "header_laws E \<Longrightarrow> built_header E h \<Longrightarrow> built_header E (snd (ce_headers E p k t h))"
  by (simp add: ce_headers_def set_default_def Let_def built_header_set)

text \<open>What a receiver finds under a key.\<close>

definition any_header :: "'x spec_headers \<Rightarrow> string \<Rightarrow> string" where
  "any_header h k = (case map_of h k of Some (AnyString s) \<Rightarrow> s | _ \<Rightarrow> '''')"

lemma any_header_received:
  "built_header E h \<Longrightarrow> any_header (fromNATSHeaders E rank h) k = header_get E h k"
  by (simp add: any_header_def built_header_def fromNATSHeaders_map_of)

text \<open>\<open>Publish\<close> before a message is built: refused headers, a message that does not marshal, and the
  headers it starts with otherwise.\<close>

abbreviation given_headers :: "'x ext \<Rightarrow> 'x Publisher \<Rightarrow> Header list \<Rightarrow> nats_header" where
  "given_headers E p headers \<equiv>
     fold (\<lambda>h nh. header_set E nh (h_Key h) (h_Value h)) (p_defaultHeaders p @ headers) []"

lemma Publish_invalid:
  assumes "List.find (\<lambda>h. validateKey h \<noteq> None) headers = Some h"
  shows "Publish E p ctx k marshal msg headers w = Some (validateKey h, w)" "validateKey h \<noteq> None"
proof -
  show "validateKey h \<noteq> None" using assms by (auto simp: find_Some_iff)
  with assms show "Publish E p ctx k marshal msg headers w = Some (validateKey h, w)"
    by (auto simp: Publish_def add_headers_eq)
qed

lemma Publish_unmarshalled:
  "List.find (\<lambda>h. validateKey h \<noteq> None) headers = None \<Longrightarrow> marshal msg = Inl err \<Longrightarrow>
   \<exists>w'. Publish E p ctx k marshal msg headers w = Some (Some err, w') \<and>
     publications (trace w') = publications (trace w) \<and> counters (trace w') = counters (trace w)"
  by (simp add: Publish_def add_headers_eq publishMessage_def Let_def)

lemma Publish_valid:
  "List.find (\<lambda>h. validateKey h \<noteq> None) headers = None \<Longrightarrow> marshal msg = Inr bytes \<Longrightarrow>
   Publish E p ctx k marshal msg headers w
     = publishMessage E p ctx k (Inr bytes) (given_headers E p headers) w"
  by (simp add: Publish_def add_headers_eq)

lemma Publish_message:
  fixes w :: "('x, 'w) world_scheme"
  assumes "header_laws E" and "inject_law E" and "ce_names_law E"
    and "p_publishFn p = Some fn" and "\<forall>h \<in> set headers. validateKey h = None"
    and "marshal msg = Inr bytes"
  shows "\<exists>r w' m ctx' t. Publish E p ctx k marshal msg headers w = Some (r, w') \<and>
    publications (trace w') = publications (trace w) @ [(m, publish_timeout fn)] \<and>
    msg_Subject m = publish_subject E p k \<and> msg_Data m = bytes \<and> built_header E (msg_Header m) \<and>
    (\<forall>key. header_get E (msg_Header m) key
       = expected_header E p k headers (now_rfc3339 E t) (uuid_New E t)
           (propagator_Inject E (propagatorOrGlobal E (p_propagator p)) ctx') key)"
proof -
  let ?hd = "given_headers E p headers"
  have "List.find (\<lambda>h. validateKey h \<noteq> None) headers = None"
    using assms(5) by (simp add: find_None_iff)
  then have "Publish E p ctx k marshal msg headers w
      = publishMessage E p ctx k (Inr bytes) ?hd w"
    using assms(6) by (rule Publish_valid)
  moreover obtain t0 t m ctx' w' where
    "publishMessage E p ctx k (Inr bytes) ?hd w = Some (answer E t (publish_call fn m), w')"
    "publications (trace w') = publications (trace w) @ [(m, publish_timeout fn)]"
    "msg_Subject m = publish_subject E p k" "msg_Data m = bytes"
    and m: "msg_Header m = injectToHeaders E (map_rank E t ''injectToHeaders'') ctx'
           (snd (ce_headers E p k t0 ?hd)) (p_propagator p)"
    using publishMessage_wired [OF assms(4), of E ctx k bytes ?hd w] by (auto simp: Let_def)
  moreover have "header_get E (msg_Header m) key
       = expected_header E p k headers (now_rfc3339 E t0) (uuid_New E t0)
           (propagator_Inject E (propagatorOrGlobal E (p_propagator p)) ctx') key" for key
    unfolding m injectToHeaders_get [OF assms(1,2)] ce_headers_get [OF assms(1,3)]
      header_get_fold_headers [OF assms(1)] expected_header_def Let_def
    ..
  moreover have "built_header E (msg_Header m)"
    unfolding m using assms(1)
    by (intro built_header_inject built_header_ce built_header_fold built_header_Nil)
  ultimately show ?thesis by auto
qed

section \<open>Properties\<close>

text \<open>
  C2: The outcome of \<open>Publish\<close> on every path. If a header of the caller is invalid, the error of
  the first invalid one is returned and nothing at all happens. If the message does not marshal,
  the marshalling error is returned, nothing is published and no counter moves. Otherwise
  \<open>Publish\<close> panics exactly if no setup has wired the publisher; a wired publisher publishes exactly
  one message, on the publisher's subject with the marshalled data, returns exactly the answer of
  the broker to that publication, and increments exactly one of the two publish counters,
  according to that answer.
\<close>

theorem Publish_outcome:
  "case List.find (\<lambda>h. validateKey h \<noteq> None) headers of
     Some h \<Rightarrow> Publish E p ctx k marshal msg headers w = Some (validateKey h, w)
   | None \<Rightarrow>
       (case marshal msg of
          Inl err \<Rightarrow> \<exists>w'. Publish E p ctx k marshal msg headers w = Some (Some err, w') \<and>
            publications (trace w') = publications (trace w) \<and>
            counters (trace w') = counters (trace w)
        | Inr bytes \<Rightarrow>
            (case p_publishFn p of
               None \<Rightarrow> Publish E p ctx k marshal msg headers w = None
             | Some fn \<Rightarrow> \<exists>m t u w'. let r = answer E t (publish_call fn m) in
                 Publish E p ctx k marshal msg headers w = Some (r, w') \<and>
                 trace w' = t @ publish_call fn m # u \<and>
                 publications (trace w') = publications (trace w) @ [(m, publish_timeout fn)] \<and>
                 msg_Subject m = publish_subject E p k \<and> msg_Data m = bytes \<and>
                 counters (trace w') = counters (trace w)
                   @ [(if r = None then eventPublishSucceedCounter else eventPublishFailedCounter,
                       [p_stream p, routingKeyLabel w k])]))"
proof (cases "List.find (\<lambda>h. validateKey h \<noteq> None) headers")
  case (Some h)
  then show ?thesis by (simp add: Publish_invalid)
next
  case valid: None
  show ?thesis
  proof (cases "marshal msg")
    case (Inl err)
    from Publish_unmarshalled [OF valid, of marshal msg, OF this] show ?thesis
      unfolding valid Inl option.case sum.case .
  next
    case (Inr bytes)
    show ?thesis
    proof (cases "p_publishFn p")
      case None
      with valid Inr show ?thesis
        by (simp add: Publish_valid publishMessage_def Let_def case_prod_unfold)
    next
      case (Some fn)
      from publishMessage_wired [OF Some, of E ctx k bytes "given_headers E p headers" w]
      show ?thesis
        unfolding valid Inr Some option.case sum.case Publish_valid [OF valid, of marshal msg, OF Inr] Let_def
        by (elim exE conjE) (intro exI conjI, auto)
    qed
  qed
qed

text \<open>
  C11: The headers on the wire. For valid headers of the caller and a message that marshals, the
  published message carries, for every key: what the propagator injects; otherwise the caller's
  value, or the publisher's default header, unless empty; otherwise the CloudEvents attribute that
  belongs to the key (specification version, the routing key as type, the service as source, the
  content type, the time, a fresh identifier).
\<close>

theorem Publish_headers:
  fixes w :: "('x, 'w) world_scheme"
  assumes "header_laws E" and "inject_law E" and "ce_names_law E"
    and "p_publishFn p = Some fn" and "\<forall>h \<in> set headers. validateKey h = None"
    and "marshal msg = Inr bytes"
  shows "\<exists>r w' m ctx' t. Publish E p ctx k marshal msg headers w = Some (r, w') \<and>
    publications (trace w') = publications (trace w) @ [(m, publish_timeout fn)] \<and>
    (\<forall>key. header_get E (msg_Header m) key
       = expected_header E p k headers (now_rfc3339 E t) (uuid_New E t)
           (propagator_Inject E (propagatorOrGlobal E (p_propagator p)) ctx') key)"
  using Publish_message [OF assms(1-5), where marshal = marshal and msg = msg, OF assms(6), of ctx k w]
  by blast

definition demo_publisher :: "unit Publisher" where
  "demo_publisher =
     (publisher_setup NewPublisher ''events'' ''svc'' () None None)\<lparr>p_publishFn := Some JsPublish\<rparr>"

theorem Publish_headers_witness:
  "\<exists>r w' m. Publish demo_ext demo_publisher () ''Order.Created'' Inr ''{}'' [\<lparr>h_Key = ''ce-id'', h_Value = ''42''\<rparr>]
       demo_cworld = Some (r, w') \<and> publications (trace w') = [(m, None)] \<and>
     header_get demo_ext (msg_Header m) ''ce-id'' = ''42'' \<and>
     header_get demo_ext (msg_Header m) ''ce-type'' = ''Order.Created'' \<and>
     header_get demo_ext (msg_Header m) ''service'' = ''svc''"
proof -
  let ?hs = "[\<lparr>h_Key = ''ce-id'', h_Value = ''42''\<rparr>]"
  have valid: "\<forall>h \<in> set ?hs. validateKey h = None"
    by (simp add: validateKey_def reservedHeaderKeys_def headerService_def)
  have wired: "p_publishFn demo_publisher = Some JsPublish"
    by (simp add: demo_publisher_def)
  from Publish_headers [OF demo_header_laws demo_inject_law demo_ce_names_law wired valid,
      of Inr "''{}''" "''{}''" "()" "''Order.Created''" demo_cworld]
  obtain r w' m ctx' t where
    "Publish demo_ext demo_publisher () ''Order.Created'' Inr ''{}'' ?hs demo_cworld = Some (r, w')"
    "publications (trace w') = publications (trace demo_cworld) @ [(m, publish_timeout JsPublish)]"
    "\<forall>key. header_get demo_ext (msg_Header m) key
       = expected_header demo_ext demo_publisher ''Order.Created'' ?hs (now_rfc3339 demo_ext t)
           (uuid_New demo_ext t) (propagator_Inject demo_ext
             (propagatorOrGlobal demo_ext (p_propagator demo_publisher)) ctx') key"
    by blast
  then show ?thesis
    by (intro exI [of _ r] exI [of _ w'] exI [of _ m])
      (simp add: expected_header_def demo_ext_def demo_publisher_def publisher_setup_def
        NewPublisher_def chosen_header_def headerService_def demo_cworld_def)
qed

lemma valid_headers_not_service:
  assumes "\<forall>h \<in> set headers. validateKey h = None"
  shows "map_of (rev (map (\<lambda>h. (h_Key h, h_Value h)) headers)) headerService = None"
proof -
  have "h_Key h \<noteq> headerService" if "h \<in> set headers" for h
    using assms that by (auto simp: validateKey_def reservedHeaderKeys_def split: if_splits)
  then show ?thesis
    by (force simp: map_of_eq_None_iff)
qed

text \<open>
  The service header cannot be forged by a caller: whatever headers the caller passes, a message
  published by a publisher whose default headers are service headers carries the last of them, unless
  the propagator itself injects that header; and it is published exactly if no header is invalid and
  the payload can be marshalled.
\<close>

lemma chosen_service_header:
  assumes "dh \<noteq> []" and "\<forall>h \<in> set dh. h_Key h = headerService"
    and "\<forall>h \<in> set headers. validateKey h = None"
  shows "chosen_header (dh @ headers) headerService = h_Value (last dh)"
proof -
  obtain ds d where dh: "dh = ds @ [d]" using assms(1) by (metis rev_exhaust)
  then show ?thesis
    using assms(2) valid_headers_not_service [OF assms(3)] by (simp add: chosen_header_def map_add_def)
qed

lemma service_header_fixed:
  fixes w :: "('x, 'w) world_scheme"
  assumes "header_laws E" and "inject_law E" and "ce_names_law E"
    and "p_defaultHeaders p \<noteq> []" and "\<forall>h \<in> set (p_defaultHeaders p). h_Key h = headerService"
    and "p_publishFn p = Some fn"
  shows "\<exists>r w'. Publish E p ctx k marshal msg headers w = Some (r, w') \<and>
    (if (\<forall>h \<in> set headers. validateKey h = None) \<and> \<not> isl (marshal msg)
     then \<exists>m ctx'. publications (trace w') = publications (trace w) @ [(m, publish_timeout fn)] \<and>
       header_get E (msg_Header m) headerService
         = (case map_of (propagator_Inject E (propagatorOrGlobal E (p_propagator p)) ctx') headerService of
              Some v \<Rightarrow> v | None \<Rightarrow> h_Value (last (p_defaultHeaders p)))
     else r \<noteq> None \<and> publications (trace w') = publications (trace w))"
proof (cases "(\<forall>h \<in> set headers. validateKey h = None) \<and> \<not> isl (marshal msg)")
  case True
  then obtain bytes where ok: "\<forall>h \<in> set headers. validateKey h = None" "marshal msg = Inr bytes"
    by (cases "marshal msg") auto
  from Publish_message [OF assms(1-3,6) ok(1), where marshal = marshal and msg = msg, OF ok(2),
      of ctx k w]
  obtain r w' m ctx' t where run: "Publish E p ctx k marshal msg headers w = Some (r, w')"
    "publications (trace w') = publications (trace w) @ [(m, publish_timeout fn)]"
    "header_get E (msg_Header m) headerService
       = expected_header E p k headers (now_rfc3339 E t) (uuid_New E t)
           (propagator_Inject E (propagatorOrGlobal E (p_propagator p)) ctx') headerService"
    by blast
  have "headerService \<notin> set (ce_keys E)"
    using assms(3) by (simp add: ce_names_law_def headerService_def)
  then have "header_get E (msg_Header m) headerService
      = (case map_of (propagator_Inject E (propagatorOrGlobal E (p_propagator p)) ctx') headerService of
           Some v \<Rightarrow> v | None \<Rightarrow> h_Value (last (p_defaultHeaders p)))"
    unfolding run(3) expected_header_def chosen_service_header [OF assms(4,5) ok(1)] Let_def
    by (auto simp: ce_keys_def split: option.split)
  with run(1,2) True show ?thesis by auto
next
  case False
  show ?thesis
  proof (cases "List.find (\<lambda>h. validateKey h \<noteq> None) headers")
    case (Some h)
    from Publish_invalid(1) [OF this, of E p ctx k marshal msg w] Publish_invalid(2) [OF this] False
    show ?thesis by auto
  next
    case None
    with False obtain err where "marshal msg = Inl err"
      by (cases "marshal msg") (auto simp: find_None_iff)
    from Publish_unmarshalled [OF None, of marshal msg, OF this, of E p ctx k w] False show ?thesis
      by force
  qed
qed

text \<open>
  C31: The outbox adapter. Without a wired publisher \<open>PublishRaw\<close> returns
  \<open>ErrPublisherNotWired\<close> and does nothing. With one it makes exactly one call, the publication of
  the payload as it is, on the subject that \<open>Publish\<close> uses for the same key, and returns the
  broker's answer. The headers on the wire are exactly those of the map that was given, whatever
  the order in which Go ranges over it: no default header and no CloudEvents attribute is added.
\<close>

theorem PublishRaw_spec:
  assumes "header_laws E" and "gomap_ok headers"
  shows "case p_publishFn p of
      None \<Rightarrow> PublishRaw E (NewOutboxRawPublisher p) k payload headers w
               = (Some (Known ErrPublisherNotWired), w)
    | Some fn \<Rightarrow> \<exists>m. PublishRaw E (NewOutboxRawPublisher p) k payload headers w
               = (answer E (trace w) (publish_call fn m), emit (publish_call fn m) w) \<and>
             msg_Subject m = publish_subject E p k \<and> msg_Data m = payload \<and>
             (\<forall>key. header_get E (msg_Header m) key
                = (case map_of headers key of Some v \<Rightarrow> v | None \<Rightarrow> ''''))"
proof (cases "p_publishFn p")
  case None
  then show ?thesis by (simp add: PublishRaw_def NewOutboxRawPublisher_def)
next
  case (Some fn)
  let ?hd = "fold (\<lambda>(k, v) h. header_set E h k v)
    (range_order (map_rank E (trace w) ''PublishRaw'') headers) []"
  have "header_get E ?hd key = (case map_of headers key of Some v \<Rightarrow> v | None \<Rightarrow> '''')" for key
    by (simp add: nats_header_look_range [OF assms] header_get_Nil [OF assms(1)] cong: option.case_cong)
  with Some show ?thesis
    by (auto simp: PublishRaw_def NewOutboxRawPublisher_def Let_def call_publishFn_eq
        intro!: exI [of _ "\<lparr>msg_Subject = publish_subject E p k, msg_Reply = '''',
          msg_Header = ?hd, msg_Data = payload\<rparr>"])
qed

theorem PublishRaw_spec_witness:
  "\<exists>m. PublishRaw demo_ext (NewOutboxRawPublisher demo_publisher) ''Order.Created'' ''{}''
         [(''ce-id'', ''1'')] demo_cworld = (None, emit (PublishMsg m) demo_cworld) \<and>
       msg_Subject m = ''events.Order.Created'' \<and>
       header_get demo_ext (msg_Header m) ''ce-id'' = ''1''"
proof -
  have "gomap_ok [(''ce-id'', ''1'')]" by (simp add: gomap_ok_def)
  from PublishRaw_spec [OF demo_header_laws this, of demo_publisher "''Order.Created''" "''{}''"
      demo_cworld]
  show ?thesis
    by (auto simp: demo_publisher_def publisher_setup_def NewPublisher_def publish_subject_def
        subjectName_def demo_ext_def)
qed

end
