(* ===== verification/Connection.thy ===== *)
theory Connection
  imports Publisher
begin

text \<open>
  The connection: the state of \<open>connection.go\<close>, its helpers, \<open>Close\<close> and \<open>ensureStream\<close>, and the
  configuring setup functions of \<open>setup.go\<close>. The world gains the publishers, which the application
  shares with the connection by address, and the callbacks handed to the NATS client, by the number
  under which it calls them.
\<close>

section \<open>State\<close>

record StreamConfig =
  st_MaxAge :: int
  st_MaxBytes :: int
  st_MaxMsgs :: int

record ConsumerDefaults =
  cd_MaxDeliver :: int
  cd_BackOff :: "int list"

text \<open>\<open>jsConsumerHandle\<close>: the consume context, by the number of its callback.\<close>

record jsConsumerHandle =
  jh_ctx :: "nat option"

text \<open>
  \<open>Connection\<close>. Of the client objects \<open>nc\<close> and \<open>js\<close> the code only asks whether they are \<open>nil\<close>;
  a logger is the list of the attributes attached to it. \<open>connectFn\<close> is \<open>natsgo.Connect\<close> or
  \<open>nil\<close>, which stands for it, and has no field here.
\<close>

record ('x, 'app) connection =
  conn_started :: bool
  conn_serviceName :: string
  conn_natsURL :: string
  conn_nc :: bool
  conn_js :: bool
  conn_consumers :: "jsConsumerHandle list"
  conn_subscriptions :: "nat list"
  conn_logger :: "(string \<times> string) list option"
  conn_topology :: topology
  conn_tracerProvider :: "'x option"
  conn_propagator :: "'x option"
  conn_notificationCh :: "nat option"
  conn_errorCh :: "nat option"
  conn_spanNameFn :: "('x delivery_info \<Rightarrow> string) option"
  conn_publishSpanNameFn :: "(string \<Rightarrow> string \<Rightarrow> string) option"
  conn_natsOpts :: "'x list"
  conn_pendingJSConsumers :: "('x, 'app) consumerConfig list"
  conn_pendingStreams :: "string list"
  conn_streamDefaults :: StreamConfig
  conn_streamConfigs :: "string \<rightharpoonup> StreamConfig"
  conn_consumerDefaults :: ConsumerDefaults
  conn_requestTimeout :: int
  conn_collectMode :: bool

text \<open>
  A callback of a Core NATS subscription is \<open>handleCoreMessage\<close> of a consumer at a routing key, or
  the closure of \<open>startRequestResponseConsumer\<close> with the variables it captures.
\<close>

type_synonym ('x, 'app) requestResponseFn =
  "'x \<Rightarrow> 'x unmarshalEvent \<Rightarrow> 'app \<Rightarrow> ((go_error + string) \<times> 'app) option"

datatype ('x, 'app) core_callback =
    CoreCallback "('x, 'app) jsConsumer" string
  | RequestCallback "('x, 'app) jsConsumer" string string "('x, 'app) requestResponseFn"

record ('x, 'app) nworld = "('x, 'app) cworld" +
  pubs :: "nat \<Rightarrow> 'x Publisher"
  js_callbacks :: "(string \<times> js_consumer_config \<times> ('x, 'app) jsConsumer) list"
  core_callbacks :: "(string \<times> ('x, 'app) core_callback) list"

text \<open>A setup function changes the connection and the world; it returns an error, or panics.\<close>

type_synonym ('x, 'app) Setup =
  "('x, 'app) connection \<Rightarrow> ('x, 'app) nworld
   \<Rightarrow> (go_error option \<times> ('x, 'app) connection \<times> ('x, 'app) nworld) option"

section \<open>Construction\<close>

definition zero_StreamConfig :: StreamConfig where
  "zero_StreamConfig = \<lparr>st_MaxAge = 0, st_MaxBytes = 0, st_MaxMsgs = 0\<rparr>"

text \<open>\<open>&Connection{}\<close>: every field has its zero value.\<close>

definition zero_connection :: "('x, 'app) connection" where
  "zero_connection =
     \<lparr>conn_started = False, conn_serviceName = '''', conn_natsURL = '''', conn_nc = False,
      conn_js = False, conn_consumers = [], conn_subscriptions = [], conn_logger = None,
      conn_topology = \<lparr>tp_Transport = TransportNATS, tp_ServiceName = '''', tp_Endpoints = []\<rparr>,
      conn_tracerProvider = None, conn_propagator = None, conn_notificationCh = None,
      conn_errorCh = None, conn_spanNameFn = None, conn_publishSpanNameFn = None,
      conn_natsOpts = [], conn_pendingJSConsumers = [], conn_pendingStreams = [],
      conn_streamDefaults = zero_StreamConfig, conn_streamConfigs = Map.empty,
      conn_consumerDefaults = \<lparr>cd_MaxDeliver = 0, cd_BackOff = []\<rparr>,
      conn_requestTimeout = 0, conn_collectMode = False\<rparr>"

definition newConnection :: "string \<Rightarrow> string \<Rightarrow> 'x list \<Rightarrow> ('x, 'app) connection" where
  "newConnection serviceName natsURL opts = zero_connection
     \<lparr>conn_serviceName := serviceName, conn_natsURL := natsURL, conn_natsOpts := opts,
      conn_logger := Some [(''service'', serviceName)],
      conn_topology := \<lparr>tp_Transport = TransportNATS, tp_ServiceName = serviceName,
                        tp_Endpoints = []\<rparr>\<rparr>"

definition NewConnection :: "string \<Rightarrow> string \<Rightarrow> 'x list \<Rightarrow> go_error + ('x, 'app) connection" where
  "NewConnection serviceName natsURL opts =
     (if serviceName = '''' then Inl (Plain ''service name must not be empty'')
      else if natsURL = '''' then Inl (Plain ''NATS URL must not be empty'')
      else Inr (newConnection serviceName natsURL opts))"

section \<open>Helpers\<close>

definition Topology :: "('x, 'app) connection \<Rightarrow> topology" where
  "Topology c = conn_topology c"

definition addEndpoint :: "endpoint \<Rightarrow> ('x, 'app) connection \<Rightarrow> ('x, 'app) connection" where
  "addEndpoint ep c =
     c\<lparr>conn_topology := (conn_topology c)
         \<lparr>tp_Endpoints := tp_Endpoints (conn_topology c) @ [ep]\<rparr>\<rparr>"

definition conn_tracer :: "'x ext \<Rightarrow> ('x, 'app) connection \<Rightarrow> 'x" where
  "conn_tracer E c = tracerFromProvider E (conn_tracerProvider c)"

definition defaultSpanNameFn :: "'x delivery_info \<Rightarrow> string" where
  "defaultSpanNameFn info = di_Destination info @ ''#'' @ di_Key info"

text \<open>
  \<open>ensureStream\<close>: the configuration it asks for, and the call. Calling it without a JetStream
  context panics.
\<close>

definition retention :: "('x, 'app) connection \<Rightarrow> string \<Rightarrow> StreamConfig" where
  "retention c name =
     (case conn_streamConfigs c name of Some override \<Rightarrow> override | None \<Rightarrow> conn_streamDefaults c)"

definition ensureStream ::
  "'x ext \<Rightarrow> ('x, 'app) connection \<Rightarrow> string \<Rightarrow> ('x, 'w) world_scheme
   \<Rightarrow> (go_error option \<times> ('x, 'w) world_scheme) option" where
  "ensureStream E c name w =
     (let sc = retention c name;
          cfg = \<lparr>sc_Name = name, sc_Subjects = [streamSubjects name], sc_Storage = FileStorage,
                 sc_MaxAge = st_MaxAge sc, sc_MaxBytes = st_MaxBytes sc,
                 sc_MaxMsgs = st_MaxMsgs sc\<rparr>;
          w = (if st_MaxAge sc = 0 \<and> st_MaxBytes sc = 0 \<and> st_MaxMsgs sc = 0
               then log_at LevelWarn
                 ''stream has no retention limits configured, storage may grow unbounded'' w
               else w)
      in if conn_js c then Some (perform E (CreateOrUpdateStream cfg) w) else None)"

definition stop_handle :: "jsConsumerHandle \<Rightarrow> ('x, 'w) world_scheme \<Rightarrow> ('x, 'w) world_scheme" where
  "stop_handle ch w = (case jh_ctx ch of Some i \<Rightarrow> emit (ConsumeStop i) w | None \<Rightarrow> w)"

definition Close ::
  "'x ext \<Rightarrow> ('x, 'app) connection \<Rightarrow> ('x, 'w) world_scheme
   \<Rightarrow> go_error option \<times> ('x, 'w) world_scheme" where
  "Close E c w =
     (if \<not> conn_started c \<or> \<not> conn_nc c then (None, w)
      else perform E NcDrain (fold stop_handle (conn_consumers c) w))"

section \<open>Setup functions that configure the connection\<close>

definition WithConsumerDefaults :: "ConsumerDefaults \<Rightarrow> ('x, 'app) Setup" where
  "WithConsumerDefaults cfg conn w = Some (None, conn\<lparr>conn_consumerDefaults := cfg\<rparr>, w)"

definition WithStreamDefaults :: "StreamConfig \<Rightarrow> ('x, 'app) Setup" where
  "WithStreamDefaults cfg conn w = Some (None, conn\<lparr>conn_streamDefaults := cfg\<rparr>, w)"

definition WithStreamConfig :: "'x ext \<Rightarrow> string \<Rightarrow> StreamConfig \<Rightarrow> ('x, 'app) Setup" where
  "WithStreamConfig E stream cfg conn w =
     (if stream = '''' then Some (Some (Plain ''stream name must not be empty''), conn, w)
      else Some (None,
        conn\<lparr>conn_streamConfigs := (conn_streamConfigs conn)(streamName E stream \<mapsto> cfg)\<rparr>, w))"

text \<open>\<open>logger.With\<close> on a \<open>nil\<close> logger panics.\<close>

definition WithLogger :: "(string \<times> string) list option \<Rightarrow> ('x, 'app) Setup" where
  "WithLogger logger conn w =
     do {
       attrs \<leftarrow> logger;
       Some (None, conn\<lparr>conn_logger := Some (attrs @ [(''service'', conn_serviceName conn)])\<rparr>, w)
     }"

definition WithTracing :: "'x option \<Rightarrow> ('x, 'app) Setup" where
  "WithTracing tp conn w = Some (None, conn\<lparr>conn_tracerProvider := tp\<rparr>, w)"

definition WithPropagator :: "'x option \<Rightarrow> ('x, 'app) Setup" where
  "WithPropagator p conn w = Some (None, conn\<lparr>conn_propagator := p\<rparr>, w)"

definition WithSpanNameFn :: "('x delivery_info \<Rightarrow> string) option \<Rightarrow> ('x, 'app) Setup" where
  "WithSpanNameFn f conn w = Some (None, conn\<lparr>conn_spanNameFn := f\<rparr>, w)"

definition WithPublishSpanNameFn :: "(string \<Rightarrow> string \<Rightarrow> string) option \<Rightarrow> ('x, 'app) Setup" where
  "WithPublishSpanNameFn f conn w = Some (None, conn\<lparr>conn_publishSpanNameFn := f\<rparr>, w)"

definition WithNotificationChannel :: "nat option \<Rightarrow> ('x, 'app) Setup" where
  "WithNotificationChannel ch conn w = Some (None, conn\<lparr>conn_notificationCh := ch\<rparr>, w)"

definition WithErrorChannel :: "nat option \<Rightarrow> ('x, 'app) Setup" where
  "WithErrorChannel ch conn w = Some (None, conn\<lparr>conn_errorCh := ch\<rparr>, w)"

definition WithRequestTimeout :: "int \<Rightarrow> ('x, 'app) Setup" where
  "WithRequestTimeout d conn w =
     (if d \<le> 0
      then Some (Some (Plain (''request timeout must be positive, got '' @ duration_string d)), conn, w)
      else Some (None, conn\<lparr>conn_requestTimeout := d\<rparr>, w))"

lemmas config_setup_defs =
  WithConsumerDefaults_def WithStreamDefaults_def WithStreamConfig_def WithLogger_def
  WithTracing_def WithPropagator_def WithSpanNameFn_def WithPublishSpanNameFn_def
  WithNotificationChannel_def WithErrorChannel_def WithRequestTimeout_def

text \<open>The setup functions above.\<close>

inductive config_setup :: "'x ext \<Rightarrow> ('x, 'app) Setup \<Rightarrow> bool" for E :: "'x ext" where
  "config_setup E (WithConsumerDefaults cfg)"
| "config_setup E (WithStreamDefaults scfg)"
| "config_setup E (WithStreamConfig E stream scfg)"
| "config_setup E (WithLogger logger)"
| "config_setup E (WithTracing tp)"
| "config_setup E (WithPropagator p)"
| "config_setup E (WithSpanNameFn f)"
| "config_setup E (WithPublishSpanNameFn g)"
| "config_setup E (WithNotificationChannel ch)"
| "config_setup E (WithErrorChannel ch)"
| "config_setup E (WithRequestTimeout d)"

section \<open>Lemmas\<close>

lemma addEndpoint_simps [simp, conn_simps]:
  "conn_serviceName (addEndpoint ep c) = conn_serviceName c"
  "conn_collectMode (addEndpoint ep c) = conn_collectMode c"
  "conn_started (addEndpoint ep c) = conn_started c"
  "conn_nc (addEndpoint ep c) = conn_nc c" "conn_js (addEndpoint ep c) = conn_js c"
  "conn_consumers (addEndpoint ep c) = conn_consumers c"
  "conn_subscriptions (addEndpoint ep c) = conn_subscriptions c"
  "conn_pendingJSConsumers (addEndpoint ep c) = conn_pendingJSConsumers c"
  "conn_propagator (addEndpoint ep c) = conn_propagator c"
  "conn_tracerProvider (addEndpoint ep c) = conn_tracerProvider c"
  "conn_publishSpanNameFn (addEndpoint ep c) = conn_publishSpanNameFn c"
  "conn_topology (addEndpoint ep c)
     = (conn_topology c)\<lparr>tp_Endpoints := tp_Endpoints (conn_topology c) @ [ep]\<rparr>"
  by (simp_all add: addEndpoint_def)

lemma emit_nworld [simp, trace_simps]:
  "pubs (emit x w) = pubs w" "js_callbacks (emit x w) = js_callbacks w"
  "core_callbacks (emit x w) = core_callbacks w"
  by (simp_all add: emit_def)

lemma log_at_nworld [simp, trace_simps]:
  "pubs (log_at l s w) = pubs w" "js_callbacks (log_at l s w) = js_callbacks w"
  "core_callbacks (log_at l s w) = core_callbacks w"
  by (simp_all add: log_at_def)

text \<open>The stream configuration that \<open>ensureStream\<close> asks for, and whether it warns.\<close>

definition wanted_stream :: "('x, 'app) connection \<Rightarrow> string \<Rightarrow> js_stream_config" where
  "wanted_stream c name =
     \<lparr>sc_Name = name, sc_Subjects = [name @ ''.>''], sc_Storage = FileStorage,
      sc_MaxAge = st_MaxAge (retention c name), sc_MaxBytes = st_MaxBytes (retention c name),
      sc_MaxMsgs = st_MaxMsgs (retention c name)\<rparr>"

definition retention_warning :: "StreamConfig \<Rightarrow> 'x call list" where
  "retention_warning sc =
     (if sc = zero_StreamConfig
      then [Log LevelWarn ''stream has no retention limits configured, storage may grow unbounded'']
      else [])"

lemma ensureStream_eq:
  "ensureStream E c name w =
     (if conn_js c
      then let t = trace w @ retention_warning (retention c name);
               call = CreateOrUpdateStream (wanted_stream c name)
           in Some (answer E t call, w\<lparr>trace := t @ [call]\<rparr>)
      else None)"
  by (cases "retention c name")
    (simp add: ensureStream_def Let_def perform_def wanted_stream_def retention_warning_def
      zero_StreamConfig_def streamSubjects_def log_at_def emit_def)

lemma fold_stop_handle:
  "fold stop_handle hs w = w\<lparr>trace := trace w @ map ConsumeStop (List.map_filter jh_ctx hs)\<rparr>"
  by (induction hs arbitrary: w)
    (auto simp: stop_handle_def emit_def map_filter_simps split: option.split)

text \<open>A configuring setup function leaves the world alone, and of the connection everything that has
  to do with its state, its declarations and what runs on it.\<close>

lemma config_setup_frame:
  assumes "config_setup E f" and "f c w = Some (r, c', w')"
  shows "w' = w" "conn_serviceName c' = conn_serviceName c" "conn_started c' = conn_started c"
    "conn_nc c' = conn_nc c" "conn_js c' = conn_js c" "conn_collectMode c' = conn_collectMode c"
    "conn_natsURL c' = conn_natsURL c" "conn_natsOpts c' = conn_natsOpts c"
    "conn_topology c' = conn_topology c" "conn_consumers c' = conn_consumers c"
    "conn_subscriptions c' = conn_subscriptions c"
    "conn_pendingJSConsumers c' = conn_pendingJSConsumers c"
    "conn_pendingStreams c' = conn_pendingStreams c"
  using assms by (cases; auto simp: config_setup_defs bind_eq_Some_conv split: if_splits)+

text \<open>Whether a configuring setup function succeeds does not depend on connection and world.\<close>

lemma config_setup_uniform:
  assumes "config_setup E f" and "f c w = Some (None, c', w')"
  shows "\<exists>d'. f d v = Some (None, d', v)"
  using assms by cases (auto simp: config_setup_defs bind_eq_Some_conv split: if_splits)

lemma Close_eq:
  "Close E c w =
     (if conn_started c \<and> conn_nc c
      then let t = trace w @ map ConsumeStop (List.map_filter jh_ctx (conn_consumers c))
           in (answer E t NcDrain, w\<lparr>trace := t @ [NcDrain]\<rparr>)
      else (None, w))"
  by (simp add: Close_def perform_def fold_stop_handle emit_def Let_def)

section \<open>Properties\<close>

text \<open>
  C29: Retention limits. A per-stream override replaces the connection's defaults as a whole, no
  matter which of the two setup functions runs first, and other streams keep the defaults.
  \<open>ensureStream\<close> then asks for exactly one stream, of that name, with the subjects \<open>name.>\<close> and
  these limits, and returns the broker's answer; before that it logs a warning exactly if all three
  limits are zero.
\<close>

theorem stream_retention:
  assumes "stream \<noteq> ''''" and "conn_js c"
    and "fs = [WithStreamDefaults defaults, WithStreamConfig E stream override] \<or>
         fs = [WithStreamConfig E stream override, WithStreamDefaults defaults]"
  shows "\<exists>c'. do { (_, c1, w1) \<leftarrow> (fs ! 0) c w; (_, c2, w2) \<leftarrow> (fs ! 1) c1 w1; Some (c2, w2) } = Some (c', w) \<and>
    (\<forall>name. let limits = (if name = streamName E stream then override
                          else case conn_streamConfigs c name of Some o' \<Rightarrow> o' | None \<Rightarrow> defaults);
                t = trace w @ (if limits = zero_StreamConfig then
                  [Log LevelWarn ''stream has no retention limits configured, storage may grow unbounded'']
                  else []);
                call = CreateOrUpdateStream
                  \<lparr>sc_Name = name, sc_Subjects = [name @ ''.>''], sc_Storage = FileStorage,
                   sc_MaxAge = st_MaxAge limits, sc_MaxBytes = st_MaxBytes limits,
                   sc_MaxMsgs = st_MaxMsgs limits\<rparr>
            in ensureStream E c' name w = Some (answer E t call, w\<lparr>trace := t @ [call]\<rparr>))"
proof -
  define c' where "c' = c\<lparr>conn_streamDefaults := defaults,
    conn_streamConfigs := (conn_streamConfigs c)(streamName E stream \<mapsto> override)\<rparr>"
  have run: "do { (_, c1, w1) \<leftarrow> (fs ! 0) c w; (_, c2, w2) \<leftarrow> (fs ! 1) c1 w1; Some (c2, w2) }
      = Some (c', w)"
    using assms by (auto simp: config_setup_defs c'_def)
  have "conn_js c'" and limits: "retention c' name = (if name = streamName E stream then override
      else case conn_streamConfigs c name of Some o' \<Rightarrow> o' | None \<Rightarrow> defaults)" for name
    using assms(2) by (simp_all add: c'_def retention_def split: option.split)
  then have "ensureStream E c' name w =
      (let t = trace w @ retention_warning (retention c' name);
           call = CreateOrUpdateStream (wanted_stream c' name)
       in Some (answer E t call, w\<lparr>trace := t @ [call]\<rparr>))" for name
    by (simp add: ensureStream_eq)
  with run show ?thesis
    unfolding retention_warning_def wanted_stream_def limits Let_def by blast
qed

definition demo_nworld :: "(unit, nat) nworld" where
  "demo_nworld = \<lparr>trace = [], routingKeyMapperVal = (\<lambda>s. s), app = 0,
     nchans = (\<lambda>_. demo_chan 1), echans = (\<lambda>_. demo_chan 0), pubs = (\<lambda>_. NewPublisher),
     js_callbacks = [], core_callbacks = []\<rparr>"

theorem stream_retention_witness:
  "\<exists>c'. do { (_, c1, w1) \<leftarrow> WithStreamConfig demo_ext ''audit''
                 \<lparr>st_MaxAge = 5, st_MaxBytes = 0, st_MaxMsgs = 0\<rparr>
                 (zero_connection\<lparr>conn_js := True\<rparr>) demo_nworld;
             (_, c2, w2) \<leftarrow> WithStreamDefaults \<lparr>st_MaxAge = 9, st_MaxBytes = 7, st_MaxMsgs = 0\<rparr> c1 w1;
             Some (c2, w2) } = Some (c', demo_nworld) \<and>
     ensureStream demo_ext c' ''audit'' demo_nworld = Some (None, demo_nworld\<lparr>trace :=
       [CreateOrUpdateStream \<lparr>sc_Name = ''audit'', sc_Subjects = [''audit.>''],
          sc_Storage = FileStorage, sc_MaxAge = 5, sc_MaxBytes = 0, sc_MaxMsgs = 0\<rparr>]\<rparr>)"
proof -
  let ?o = "\<lparr>st_MaxAge = 5, st_MaxBytes = 0, st_MaxMsgs = 0\<rparr>"
  let ?d = "\<lparr>st_MaxAge = 9, st_MaxBytes = 7, st_MaxMsgs = 0\<rparr>"
  from stream_retention [of "''audit''" "zero_connection\<lparr>conn_js := True\<rparr>"
      "[WithStreamConfig demo_ext ''audit'' ?o, WithStreamDefaults ?d]" ?d demo_ext ?o demo_nworld]
  show ?thesis
    by (auto simp: Let_def zero_StreamConfig_def streamName_def demo_ext_def demo_nworld_def
        dest!: spec [of _ "''audit''"])
qed

end
