(* ===== verification/Setups.thy ===== *)
theory Setups
  imports Connection
begin

text \<open>
  The setup functions that declare endpoints: \<open>setup_consumer.go\<close>, \<open>setup_publisher.go\<close> and
  \<open>request_response.go\<close>, and the deferred creation of JetStream consumers, grouped by stream and
  durable name. The closure that answers requests is \<open>request_callback\<close>.
\<close>

section \<open>JetStream consumers\<close>

text \<open>\<open>startJSConsumer\<close> only collects the configuration, and never fails.\<close>

definition startJSConsumer ::
  "('x, 'app) consumerConfig \<Rightarrow> ('x, 'app) connection \<Rightarrow> go_error option \<times> ('x, 'app) connection"
where
  "startJSConsumer cfg c =
     (None, c\<lparr>conn_pendingJSConsumers := conn_pendingJSConsumers c @ [cfg]\<rparr>)"

definition stream_pattern :: "string \<Rightarrow> pattern" where
  "stream_pattern stream =
     (if stream \<noteq> defaultEventStreamName then PatternCustomStream else PatternEventStream)"

definition StreamConsumer ::
  "'x ext \<Rightarrow> 't go_type \<Rightarrow> string \<Rightarrow> string \<Rightarrow> ('x, 't, 'app) EventHandler
   \<Rightarrow> ('x, 'app) ConsumerOptions list \<Rightarrow> ('x, 'app) Setup" where
  "StreamConsumer E T stream routingKey handler opts c w =
     (let name = streamName E stream
      in case newConsumerConfig E name routingKey False (newWrappedHandler E T handler)
                (conn_serviceName c) opts of
           Inl err \<Rightarrow> Some (Some err, c, w)
         | Inr cfg \<Rightarrow>
             (case startJSConsumer cfg c of
                (Some err, c) \<Rightarrow> Some (Some err, c, w)
              | (None, c) \<Rightarrow>
                  Some (None, addEndpoint
                    \<lparr>ep_Direction = DirectionConsume, ep_Pattern = stream_pattern stream,
                     ep_ExchangeName = name, ep_ExchangeKind = ExchangeTopic,
                     ep_QueueName = cc_consumerName cfg, ep_RoutingKey = routingKey,
                     ep_MessageType = ty_String T, ep_Ephemeral = False\<rparr> c, w)))"

definition EventStreamConsumer ::
  "'x ext \<Rightarrow> 't go_type \<Rightarrow> string \<Rightarrow> ('x, 't, 'app) EventHandler
   \<Rightarrow> ('x, 'app) ConsumerOptions list \<Rightarrow> ('x, 'app) Setup" where
  "EventStreamConsumer E T routingKey handler opts =
     StreamConsumer E T defaultEventStreamName routingKey handler opts"

definition TransientStreamConsumer ::
  "'x ext \<Rightarrow> 't go_type \<Rightarrow> string \<Rightarrow> string \<Rightarrow> ('x, 't, 'app) EventHandler
   \<Rightarrow> ('x, 'app) ConsumerOptions list \<Rightarrow> ('x, 'app) Setup" where
  "TransientStreamConsumer E T stream routingKey handler opts c w =
     (let name = streamName E stream
      in case newConsumerConfig E name routingKey True (newWrappedHandler E T handler)
                (conn_serviceName c) opts of
           Inl err \<Rightarrow> Some (Some err, c, w)
         | Inr cfg \<Rightarrow>
             (case startJSConsumer cfg c of
                (Some err, c) \<Rightarrow> Some (Some err, c, w)
              | (None, c) \<Rightarrow>
                  Some (None, addEndpoint
                    \<lparr>ep_Direction = DirectionConsume, ep_Pattern = stream_pattern stream,
                     ep_ExchangeName = name, ep_ExchangeKind = ExchangeTopic,
                     ep_QueueName = cc_consumerName cfg, ep_RoutingKey = routingKey,
                     ep_MessageType = ty_String T, ep_Ephemeral = True\<rparr> c, w)))"

definition TransientEventStreamConsumer ::
  "'x ext \<Rightarrow> 't go_type \<Rightarrow> string \<Rightarrow> ('x, 't, 'app) EventHandler
   \<Rightarrow> ('x, 'app) ConsumerOptions list \<Rightarrow> ('x, 'app) Setup" where
  "TransientEventStreamConsumer E T routingKey handler opts =
     TransientStreamConsumer E T defaultEventStreamName routingKey handler opts"

text \<open>Grouping: a map from group keys to configurations, and the keys in the order of their first
  appearance.\<close>

definition consumerGroupKey :: "('x, 'app) consumerConfig \<Rightarrow> string" where
  "consumerGroupKey cfg = cc_stream cfg @ '':'' @ cc_consumerName cfg"

fun group_configs ::
  "('x, 'app) consumerConfig list \<Rightarrow> (string \<rightharpoonup> ('x, 'app) consumerConfig list) \<Rightarrow> string list
   \<Rightarrow> (string \<rightharpoonup> ('x, 'app) consumerConfig list) \<times> string list" where
  "group_configs [] groups order = (groups, order)"
| "group_configs (cfg # cfgs) groups order =
     (let key = consumerGroupKey cfg
      in case groups key of
           None \<Rightarrow> group_configs cfgs (groups(key \<mapsto> [cfg])) (order @ [key])
         | Some g \<Rightarrow> group_configs cfgs (groups(key \<mapsto> g @ [cfg])) order)"

text \<open>The JetStream consumer and the configuration made of a group; \<open>first\<close> is its first member.\<close>

definition group_consumer ::
  "'x ext \<Rightarrow> ('x, 'app) connection \<Rightarrow> ('x, 'app) consumerConfig \<Rightarrow> ('x, 'app) consumerConfig list
   \<Rightarrow> ('x, 'app) jsConsumer" where
  "group_consumer E c first configs =
     \<lparr>jsc_name = cc_consumerName first, jsc_stream = cc_stream first,
      jsc_serviceName = conn_serviceName c,
      jsc_handlers = fold (\<lambda>cfg h. rkh_add h (cc_routingKey cfg) (cc_handler cfg)) configs [],
      jsc_notificationCh = conn_notificationCh c, jsc_errorCh = conn_errorCh c,
      jsc_spanNameFn = conn_spanNameFn c, jsc_tracer = Some (conn_tracer E c),
      jsc_propagator = conn_propagator c\<rparr>"

definition group_js_config ::
  "'x ext \<Rightarrow> ConsumerDefaults \<Rightarrow> ('x, 'app) consumerConfig \<Rightarrow> ('x, 'app) consumerConfig list
   \<Rightarrow> js_consumer_config" where
  "group_js_config E defaults first configs =
     (let filterSubjects = map (\<lambda>cfg. filterSubject E (cc_stream cfg) (cc_routingKey cfg)) configs;
          maxDeliver = (if cc_maxDeliver first > 0 then cc_maxDeliver first
                        else cd_MaxDeliver defaults);
          backOff = (case cc_backOff first of Some b \<Rightarrow> b | None \<Rightarrow> cd_BackOff defaults)
      in \<lparr>jc_Durable = (if \<not> cc_ephemeral first then cc_consumerName first else ''''),
          jc_FilterSubject = (if length filterSubjects = 1 then hd filterSubjects else ''''),
          jc_FilterSubjects = (if length filterSubjects = 1 then [] else filterSubjects),
          jc_MaxDeliver = (if maxDeliver > 0 then maxDeliver else 0),
          jc_BackOff = (if length backOff > 0 then backOff else [])\<rparr>)"

text \<open>The body of the loop over the groups; indexing an empty group would panic.\<close>

definition start_group ::
  "'x ext \<Rightarrow> ('x, 'app) consumerConfig list \<Rightarrow> ('x, 'app) Setup" where
  "start_group E configs c w =
     (case configs of
        [] \<Rightarrow> None
      | first # _ \<Rightarrow>
          (case ensureStream E c (cc_stream first) w of
             None \<Rightarrow> None
           | Some (Some err, w) \<Rightarrow>
               Some (Some (wrap_error (ext_error_text E)
                 (''failed to ensure stream '' @ cc_stream first) err), c, w)
           | Some (None, w) \<Rightarrow>
               (let consumer = group_consumer E c first configs;
                    jsCfg = group_js_config E (conn_consumerDefaults c) first configs
                in case perform E (CreateOrUpdateConsumer (cc_stream first) jsCfg) w of
                     (Some err, w) \<Rightarrow>
                       Some (Some (wrap_error (ext_error_text E)
                         (''failed to create consumer on stream '' @ cc_stream first) err), c, w)
                   | (None, w) \<Rightarrow>
                       (case perform E (Consume (cc_stream first) jsCfg) w of
                          (Some err, w) \<Rightarrow>
                            Some (Some (wrap_error (ext_error_text E)
                              (''failed to start consuming on stream '' @ cc_stream first) err), c, w)
                        | (None, w) \<Rightarrow>
                            (let c = c\<lparr>conn_consumers := conn_consumers c
                                   @ [\<lparr>jh_ctx = Some (length (js_callbacks w))\<rparr>]\<rparr>;
                                 w = w\<lparr>js_callbacks := js_callbacks w
                                   @ [(cc_stream first, jsCfg, consumer)]\<rparr>
                             in Some (None, c, log_at LevelInfo ''started JetStream consumer'' w))))))"

fun start_groups ::
  "'x ext \<Rightarrow> (string \<rightharpoonup> ('x, 'app) consumerConfig list) \<Rightarrow> string list \<Rightarrow> ('x, 'app) Setup" where
  "start_groups E groups [] c w = Some (None, c, w)"
| "start_groups E groups (key # order) c w =
     do {
       configs \<leftarrow> groups key;
       (err, c, w) \<leftarrow> start_group E configs c w;
       (case err of
          Some err \<Rightarrow> Some (Some err, c, w)
        | None \<Rightarrow> start_groups E groups order c w)
     }"

definition startPendingJSConsumers :: "'x ext \<Rightarrow> ('x, 'app) Setup" where
  "startPendingJSConsumers E c w =
     (case group_configs (conn_pendingJSConsumers c) Map.empty [] of
        (groups, order) \<Rightarrow>
          do {
            (err, c, w) \<leftarrow> start_groups E groups order c w;
            (case err of
               Some err \<Rightarrow> Some (Some err, c, w)
             | None \<Rightarrow> Some (None, c\<lparr>conn_pendingJSConsumers := []\<rparr>, w))
          })"

section \<open>Core NATS subscriptions\<close>

text \<open>The consumer that \<open>startCoreConsumer\<close> and \<open>startRequestResponseConsumer\<close> build.\<close>

definition core_consumer ::
  "'x ext \<Rightarrow> ('x, 'app) connection \<Rightarrow> string \<Rightarrow> ('x, 'app) jsConsumer" where
  "core_consumer E c consName =
     \<lparr>jsc_name = consName, jsc_stream = '''', jsc_serviceName = conn_serviceName c,
      jsc_handlers = [], jsc_notificationCh = conn_notificationCh c,
      jsc_errorCh = conn_errorCh c, jsc_spanNameFn = conn_spanNameFn c,
      jsc_tracer = Some (conn_tracer E c), jsc_propagator = conn_propagator c\<rparr>"

text \<open>\<open>nc.Subscribe\<close> with a callback; the client keeps the callback if the call succeeds.\<close>

definition subscribe ::
  "'x ext \<Rightarrow> string \<Rightarrow> ('x, 'app) core_callback \<Rightarrow> string \<Rightarrow> ('x, 'app) Setup" where
  "subscribe E subject cb what c w =
     (case perform E (NcSubscribe subject) w of
        (Some err, w) \<Rightarrow>
          Some (Some (wrap_error (ext_error_text E) (''failed to subscribe to '' @ subject) err), c, w)
      | (None, w) \<Rightarrow>
          (let c = c\<lparr>conn_subscriptions := conn_subscriptions c @ [length (core_callbacks w)]\<rparr>;
               w = w\<lparr>core_callbacks := core_callbacks w @ [(subject, cb)]\<rparr>
           in Some (None, c, log_at LevelInfo what w)))"

definition startCoreConsumer ::
  "'x ext \<Rightarrow> string \<Rightarrow> string \<Rightarrow> string \<Rightarrow> ('x, 'app) wrappedHandler \<Rightarrow> ('x, 'app) Setup" where
  "startCoreConsumer E subject routingKey consName handler c w =
     (let consumer = core_consumer E c consName;
          consumer = consumer\<lparr>jsc_handlers := rkh_add (jsc_handlers consumer) routingKey handler\<rparr>
      in subscribe E subject (CoreCallback consumer routingKey) ''started Core subscription'' c w)"

definition ServiceRequestConsumer ::
  "'x ext \<Rightarrow> 't go_type \<Rightarrow> string \<Rightarrow> ('x, 't, 'app) EventHandler
   \<Rightarrow> ('x, 'app) ConsumerOptions list \<Rightarrow> ('x, 'app) Setup" where
  "ServiceRequestConsumer E T routingKey handler opts c w =
     do {
       (err, c, w) \<leftarrow>
         (if \<not> conn_collectMode c
          then startCoreConsumer E (serviceRequestSubject (conn_serviceName c) routingKey)
                 routingKey (conn_serviceName c) (newWrappedHandler E T handler) c w
          else Some (None, c, w));
       (case err of
          Some err \<Rightarrow> Some (Some err, c, w)
        | None \<Rightarrow> Some (None, addEndpoint
            \<lparr>ep_Direction = DirectionConsume, ep_Pattern = PatternServiceRequest,
             ep_ExchangeName = conn_serviceName c, ep_ExchangeKind = ExchangeDirect,
             ep_QueueName = conn_serviceName c, ep_RoutingKey = routingKey,
             ep_MessageType = ty_String T, ep_Ephemeral = False\<rparr> c, w))
     }"

definition ServiceResponseConsumer ::
  "'t go_type \<Rightarrow> string \<Rightarrow> string \<Rightarrow> ('x, 't, 'app) EventHandler
   \<Rightarrow> ('x, 'app) ConsumerOptions list \<Rightarrow> ('x, 'app) Setup" where
  "ServiceResponseConsumer T targetService routingKey handler opts c w =
     Some (None, addEndpoint
       \<lparr>ep_Direction = DirectionConsume, ep_Pattern = PatternServiceResponse,
        ep_ExchangeName = targetService, ep_ExchangeKind = ExchangeHeaders,
        ep_QueueName = conn_serviceName c, ep_RoutingKey = routingKey,
        ep_MessageType = ty_String T, ep_Ephemeral = False\<rparr> c, w)"

section \<open>Requests with a response\<close>

type_synonym ('x, 't, 'r, 'app) RequestResponseEventHandler =
  "'x \<Rightarrow> ('x, 't) ConsumableEvent \<Rightarrow> 'app \<Rightarrow> ((go_error + 'r) \<times> 'app) option"

text \<open>\<open>marshal\<close> is \<open>json.Marshal\<close> at the response type.\<close>

definition requestResponseWrapper ::
  "'x ext \<Rightarrow> 't go_type \<Rightarrow> ('r \<Rightarrow> go_error + string)
   \<Rightarrow> ('x, 't, 'r, 'app) RequestResponseEventHandler \<Rightarrow> ('x, 'app) requestResponseFn" where
  "requestResponseWrapper E T marshal handler ctx event s =
     (case ty_Unmarshal T (ue_Payload event) of
        Inl err \<Rightarrow> Some (Inl (parse_error (ext_error_text E) err), s)
      | Inr payload \<Rightarrow>
          do {
            (result, s) \<leftarrow> handler ctx
              \<lparr>ce_Metadata = ue_Metadata event, ce_DeliveryInfo = ue_DeliveryInfo event,
               ce_Payload = payload\<rparr> s;
            (case result of
               Inl err \<Rightarrow> Some (Inl err, s)
             | Inr resp \<Rightarrow>
                 (case marshal resp of
                    Inl err \<Rightarrow>
                      Some (Inl (wrap_error (ext_error_text E) ''failed to marshal response'' err), s)
                  | Inr respBytes \<Rightarrow> Some (Inr respBytes, s)))
          })"

text \<open>The closure that \<open>startRequestResponseConsumer\<close> subscribes.\<close>

definition request_callback ::
  "'x ext \<Rightarrow> ('x, 'app) jsConsumer \<Rightarrow> string \<Rightarrow> string \<Rightarrow> ('x, 'app) requestResponseFn \<Rightarrow> nats_msg
   \<Rightarrow> ('x, 'app, 'w) cworld_scheme \<Rightarrow> ('x, 'app, 'w) cworld_scheme option" where
  "request_callback E consumer routingKey consName handler msg w =
     do {
       let headers = fromNATSHeaders E (map_rank E (trace w) ''fromNATSHeaders'') (msg_Header msg);
       let deliveryInfo = \<lparr>di_Destination = consName, di_Source = msg_Subject msg,
                           di_Key = routingKey, di_Headers = headers\<rparr>;
       (result, _, w) \<leftarrow>
         invoke_handler E consumer deliveryInfo (msg_Header msg) (msg_Data msg) handler w;
       (case result of
          Inl err \<Rightarrow>
            (let w = emit (SpanRecordError err) w;
                 w = emit (SpanSetStatus StatusError (err_text E err)) w;
                 w = log_at LevelError ''request handler failed'' w;
                 w = respond_error E msg err w
             in Some (emit SpanEnd w))
        | Inr resp \<Rightarrow>
            (let w = emit (SpanSetStatus StatusOk '''') w;
                 w = (if msg_Reply msg \<noteq> '''' then emit (MsgRespond (msg_Reply msg) resp) w else w)
             in Some (emit SpanEnd w)))
     }"

definition startRequestResponseConsumer ::
  "'x ext \<Rightarrow> string \<Rightarrow> string \<Rightarrow> string \<Rightarrow> ('x, 'app) requestResponseFn \<Rightarrow> ('x, 'app) Setup" where
  "startRequestResponseConsumer E subject routingKey consName handler c w =
     subscribe E subject (RequestCallback (core_consumer E c consName) routingKey consName handler)
       ''started request-response consumer'' c w"

definition RequestResponseHandler ::
  "'x ext \<Rightarrow> 't go_type \<Rightarrow> ('r \<Rightarrow> go_error + string) \<Rightarrow> string
   \<Rightarrow> ('x, 't, 'r, 'app) RequestResponseEventHandler \<Rightarrow> ('x, 'app) Setup" where
  "RequestResponseHandler E T marshal routingKey handler c w =
     do {
       let wrappedFn = requestResponseWrapper E T marshal handler;
       (err, c, w) \<leftarrow>
         (if \<not> conn_collectMode c
          then startRequestResponseConsumer E (serviceRequestSubject (conn_serviceName c) routingKey)
                 routingKey (conn_serviceName c) wrappedFn c w
          else Some (None, c, w));
       (case err of
          Some err \<Rightarrow> Some (Some err, c, w)
        | None \<Rightarrow> Some (None, addEndpoint
            \<lparr>ep_Direction = DirectionConsume, ep_Pattern = PatternServiceRequest,
             ep_ExchangeName = conn_serviceName c, ep_ExchangeKind = ExchangeDirect,
             ep_QueueName = conn_serviceName c, ep_RoutingKey = routingKey,
             ep_MessageType = '''', ep_Ephemeral = False\<rparr> c, w))
     }"

text \<open>The NATS client calls the callback of a subscription.\<close>

definition deliver_core ::
  "'x ext \<Rightarrow> ('x, 'app) core_callback \<Rightarrow> nats_msg
   \<Rightarrow> ('x, 'app, 'w) cworld_scheme \<Rightarrow> ('x, 'app, 'w) cworld_scheme option" where
  "deliver_core E cb msg w =
     (case cb of
        CoreCallback consumer routingKey \<Rightarrow> handleCoreMessage E consumer msg routingKey w
      | RequestCallback consumer routingKey consName handler \<Rightarrow>
          request_callback E consumer routingKey consName handler msg w)"

section \<open>Publishers\<close>

definition StreamPublisher :: "'x ext \<Rightarrow> string \<Rightarrow> nat \<Rightarrow> ('x, 'app) Setup" where
  "StreamPublisher E stream publisher c w =
     do {
       let name = streamName E stream;
       (err, w) \<leftarrow>
         (if \<not> conn_collectMode c then
            do {
              (err, w) \<leftarrow> ensureStream E c name w;
              (case err of
                 Some err \<Rightarrow>
                   Some (Some (wrap_error (ext_error_text E) (''failed to ensure stream '' @ name) err), w)
               | None \<Rightarrow>
                   Some (None, w\<lparr>pubs := (pubs w)(publisher :=
                     (pubs w publisher)\<lparr>p_publishFn := Some JsPublish\<rparr>)\<rparr>))
            }
          else Some (None, w));
       (case err of
          Some err \<Rightarrow> Some (Some err, c, w)
        | None \<Rightarrow>
            (let w = log_at LevelInfo ''configured publisher'' w;
                 c = c\<lparr>conn_pendingStreams := conn_pendingStreams c @ [name]\<rparr>;
                 c = addEndpoint
                   \<lparr>ep_Direction = DirectionPublish, ep_Pattern = stream_pattern stream,
                    ep_ExchangeName = name, ep_ExchangeKind = ExchangeTopic, ep_QueueName = '''',
                    ep_RoutingKey = '''', ep_MessageType = '''', ep_Ephemeral = False\<rparr> c;
                 w = w\<lparr>pubs := (pubs w)(publisher :=
                   publisher_setup (pubs w publisher) name (conn_serviceName c) (conn_tracer E c)
                     (conn_propagator c) (conn_publishSpanNameFn c))\<rparr>
             in Some (None, c, w)))
     }"

definition EventStreamPublisher :: "'x ext \<Rightarrow> nat \<Rightarrow> ('x, 'app) Setup" where
  "EventStreamPublisher E publisher = StreamPublisher E defaultEventStreamName publisher"

definition ServicePublisher :: "'x ext \<Rightarrow> string \<Rightarrow> nat \<Rightarrow> ('x, 'app) Setup" where
  "ServicePublisher E targetService publisher c w =
     (let w = (if \<not> conn_collectMode c then
                 (let timeout = (if conn_requestTimeout c = 0 then 30 * second
                                 else conn_requestTimeout c)
                  in w\<lparr>pubs := (pubs w)(publisher :=
                       (pubs w publisher)\<lparr>p_publishFn := Some (CoreRequest timeout)\<rparr>)\<rparr>)
               else w);
          w = w\<lparr>pubs := (pubs w)(publisher := (pubs w publisher)
                \<lparr>p_subjectFn := Some (\<lambda>_ routingKey. serviceRequestSubject targetService routingKey)\<rparr>)\<rparr>;
          w = log_at LevelInfo ''configured service publisher'' w;
          c = addEndpoint
            \<lparr>ep_Direction = DirectionPublish, ep_Pattern = PatternServiceRequest,
             ep_ExchangeName = targetService, ep_ExchangeKind = ExchangeDirect, ep_QueueName = '''',
             ep_RoutingKey = '''', ep_MessageType = '''', ep_Ephemeral = False\<rparr> c;
          w = w\<lparr>pubs := (pubs w)(publisher :=
            publisher_setup (pubs w publisher) targetService (conn_serviceName c) (conn_tracer E c)
              (conn_propagator c) (conn_publishSpanNameFn c))\<rparr>
      in Some (None, c, w))"

section \<open>Grouping, abstractly\<close>

text \<open>The elements of a list without repetitions, in the order of their first occurrence.\<close>

fun nub :: "'a list \<Rightarrow> 'a list" where
  "nub [] = []"
| "nub (x # xs) = x # filter (\<lambda>y. y \<noteq> x) (nub xs)"

lemma set_nub [simp]: "set (nub xs) = set xs"
  by (induction xs) auto

lemma distinct_nub [simp]: "distinct (nub xs)"
  by (induction xs) auto

text \<open>The groups: for each key, in the order of first appearance, the configurations with that key
  in the order in which they were declared.\<close>

definition groups_of :: "('x, 'app) consumerConfig list \<Rightarrow> ('x, 'app) consumerConfig list list" where
  "groups_of cfgs =
     map (\<lambda>k. filter (\<lambda>cfg. consumerGroupKey cfg = k) cfgs) (nub (map consumerGroupKey cfgs))"

lemma group_configs_order:
  "set order = dom groups \<Longrightarrow>
   snd (group_configs cfgs groups order)
     = order @ filter (\<lambda>k. k \<notin> set order) (nub (map consumerGroupKey cfgs))"
proof (induction cfgs arbitrary: groups order)
  case Nil
  then show ?case by simp
next
  case (Cons cfg cfgs)
  let ?k = "consumerGroupKey cfg"
  show ?case
  proof (cases "groups ?k")
    case None
    then have new: "?k \<notin> set order" using Cons.prems by auto
    have "snd (group_configs (cfg # cfgs) groups order)
        = snd (group_configs cfgs (groups(?k \<mapsto> [cfg])) (order @ [?k]))"
      using None by (simp add: Let_def)
    also have "\<dots> = (order @ [?k])
        @ filter (\<lambda>k. k \<notin> set (order @ [?k])) (nub (map consumerGroupKey cfgs))"
      by (rule Cons.IH) (use Cons.prems in auto)
    also have "\<dots> = order @ filter (\<lambda>k. k \<notin> set order) (nub (map consumerGroupKey (cfg # cfgs)))"
      using new by (simp cong: filter_cong add: conj_commute)
    finally show ?thesis .
  next
    case (Some g)
    then have old: "?k \<in> set order" using Cons.prems by auto
    have "snd (group_configs (cfg # cfgs) groups order)
        = snd (group_configs cfgs (groups(?k \<mapsto> g @ [cfg])) order)"
      using Some by (simp add: Let_def)
    also have "\<dots> = order @ filter (\<lambda>k. k \<notin> set order) (nub (map consumerGroupKey cfgs))"
      by (rule Cons.IH) (use Cons.prems Some in \<open>auto split: if_splits\<close>)
    also have "filter (\<lambda>k. k \<notin> set order) (nub (map consumerGroupKey cfgs))
        = filter (\<lambda>k. k \<notin> set order) (nub (map consumerGroupKey (cfg # cfgs)))"
      using old by (auto intro: filter_cong)
    finally show ?thesis .
  qed
qed

lemma group_configs_groups:
  "fst (group_configs cfgs groups order) k =
     (let g = filter (\<lambda>cfg. consumerGroupKey cfg = k) cfgs
      in case groups k of Some h \<Rightarrow> Some (h @ g) | None \<Rightarrow> if g = [] then None else Some g)"
  by (induction cfgs arbitrary: groups order) (auto simp: Let_def split: option.splits)

lemma group_configs_eq:
  "group_configs cfgs Map.empty []
     = (\<lambda>k. let g = filter (\<lambda>cfg. consumerGroupKey cfg = k) cfgs in if g = [] then None else Some g,
        nub (map consumerGroupKey cfgs))"
  by (rule prod_eqI)
    (simp_all add: group_configs_groups group_configs_order fun_eq_iff Let_def)

lemma groups_of_not_Nil: "g \<in> set (groups_of cfgs) \<Longrightarrow> g \<noteq> []"
  by (auto simp: groups_of_def filter_empty_conv)

lemma mset_filter_keys:
  "distinct ks \<Longrightarrow> mset (concat (map (\<lambda>k. filter (\<lambda>x. f x = k) xs) ks))
     = filter_mset (\<lambda>x. f x \<in> set ks) (mset xs)"
proof (induction ks)
  case Nil
  then show ?case by simp
next
  case (Cons k ks)
  then show ?case
    by (auto simp: multiset_eq_iff)
qed

lemma mset_groups_of: "mset (concat (groups_of cfgs)) = mset cfgs"
  by (simp add: groups_of_def mset_filter_keys) (simp add: filter_mset_eq_conv)

section \<open>Starting the groups\<close>

text \<open>The loop over the groups, as a loop over the list of them.\<close>

fun start_list ::
  "'x ext \<Rightarrow> ('x, 'app) consumerConfig list list \<Rightarrow> ('x, 'app) Setup" where
  "start_list E [] c w = Some (None, c, w)"
| "start_list E (g # gs) c w =
     do {
       (err, c, w) \<leftarrow> start_group E g c w;
       (case err of Some err \<Rightarrow> Some (Some err, c, w) | None \<Rightarrow> start_list E gs c w)
     }"

lemma start_groups_list:
  "\<forall>k \<in> set order. groups k = Some (f k) \<Longrightarrow>
   start_groups E groups order c w = start_list E (map f order) c w"
  by (induction order arbitrary: c w) (auto intro!: Option.bind_cong split: option.split)

lemma startPendingJSConsumers_eq:
  "startPendingJSConsumers E c w =
     do {
       (err, c, w) \<leftarrow> start_list E (groups_of (conn_pendingJSConsumers c)) c w;
       Some (err, if err = None then c\<lparr>conn_pendingJSConsumers := []\<rparr> else c, w)
     }"
proof -
  let ?cfgs = "conn_pendingJSConsumers c"
  have "start_groups E (fst (group_configs ?cfgs Map.empty [])) (nub (map consumerGroupKey ?cfgs)) c w
      = start_list E (groups_of ?cfgs) c w"
    unfolding groups_of_def
    by (rule start_groups_list) (auto simp: group_configs_eq Let_def filter_empty_conv)
  then show ?thesis
    by (cases "start_list E (groups_of ?cfgs) c w")
      (auto simp: startPendingJSConsumers_def group_configs_eq case_prod_unfold split: option.split)
qed

text \<open>What one group contributes: the call that creates its consumer, and the callback.\<close>

definition group_callback ::
  "'x ext \<Rightarrow> ('x, 'app) connection \<Rightarrow> ('x, 'app) consumerConfig list
   \<Rightarrow> string \<times> js_consumer_config \<times> ('x, 'app) jsConsumer" where
  "group_callback E c g =
     (cc_stream (hd g), group_js_config E (conn_consumerDefaults c) (hd g) g,
      group_consumer E c (hd g) g)"

fun creation_of :: "'x call \<Rightarrow> (string \<times> js_consumer_config) option" where
  "creation_of (CreateOrUpdateConsumer s cfg) = Some (s, cfg)"
| "creation_of _ = None"

definition creations :: "'x call list \<Rightarrow> (string \<times> js_consumer_config) list" where
  "creations t = List.map_filter creation_of t"

lemma creations_simps [simp]:
  "creations (s @ t) = creations s @ creations t"
  "creations (c # t) = (case creation_of c of Some x \<Rightarrow> x # creations t | None \<Rightarrow> creations t)"
  "creations [] = []"
  by (simp_all add: creations_def map_filter_simps split: option.split)

lemma creations_retention_warning [simp]: "creations (retention_warning sc) = []"
  by (simp add: retention_warning_def)

lemma group_consumer_consumers [simp]:
  "group_consumer E (c\<lparr>conn_consumers := hs\<rparr>) = group_consumer E c"
  by (simp add: group_consumer_def conn_tracer_def fun_eq_iff)

lemma group_callback_consumers [simp]:
  "group_callback E (c\<lparr>conn_consumers := hs\<rparr>) = group_callback E c"
  by (simp add: group_callback_def fun_eq_iff)

text \<open>One group: either it fails and leaves connection and callbacks alone, or it adds one.\<close>

lemma start_group_defined:
  "g \<noteq> [] \<Longrightarrow> conn_js c \<Longrightarrow> \<exists>r c' w'. start_group E g c w = Some (r, c', w')"
  by (cases g) (auto simp: start_group_def ensureStream_eq Let_def perform_def split: option.split)

lemma start_group_result:
  assumes "start_group E g c w = Some (r, c', w')"
  shows "core_callbacks w' = core_callbacks w" "pubs w' = pubs w" "conn_js c" "g \<noteq> []"
    and "c' = (if r = None then c\<lparr>conn_consumers := conn_consumers c
                                  @ [\<lparr>jh_ctx = Some (length (js_callbacks w))\<rparr>]\<rparr> else c)"
    and "js_callbacks w' = js_callbacks w @ (if r = None then [group_callback E c g] else [])"
    and "\<exists>u. trace w' = trace w @ u \<and>
           (creations u = [(cc_stream (hd g), group_js_config E (conn_consumerDefaults c) (hd g) g)] \<or>
            r \<noteq> None \<and> creations u = [])"
  using assms
  by (auto simp: start_group_def ensureStream_eq Let_def perform_def group_callback_def
      split: list.splits option.splits if_splits)

text \<open>All groups: those started before the first failure.\<close>

lemma start_list_result:
  assumes "start_list E gs c w = Some (r, c', w')"
  shows "\<exists>n \<le> length gs. (r = None \<longleftrightarrow> n = length gs) \<and>
      c' = c\<lparr>conn_consumers := conn_consumers c
        @ map (\<lambda>i. \<lparr>jh_ctx = Some (length (js_callbacks w) + i)\<rparr>) [0..<n]\<rparr> \<and>
      js_callbacks w' = js_callbacks w @ map (group_callback E c) (take n gs)"
  using assms
proof (induction gs arbitrary: c w)
  case Nil
  then show ?case by simp
next
  case (Cons g gs)
  then obtain r1 c1 w1 where g: "start_group E g c w = Some (r1, c1, w1)"
    by (auto simp: bind_eq_Some_conv)
  note res = start_group_result [OF g]
  show ?case
  proof (cases r1)
    case (Some e)
    with Cons.prems g res(5,6) show ?thesis
      by (intro exI [of _ 0]) auto
  next
    case None
    with Cons.prems g have "start_list E gs c1 w1 = Some (r, c', w')" by simp
    from Cons.IH [OF this] obtain n where n: "n \<le> length gs" "r = None \<longleftrightarrow> n = length gs"
      "c' = c1\<lparr>conn_consumers := conn_consumers c1
        @ map (\<lambda>i. \<lparr>jh_ctx = Some (length (js_callbacks w1) + i)\<rparr>) [0..<n]\<rparr>"
      "js_callbacks w' = js_callbacks w1 @ map (group_callback E c1) (take n gs)"
      by blast
    have upt: "[0..<Suc n] = 0 # map Suc [0..<n]"
      by (simp add: upt_conv_Cons map_Suc_upt del: upt_Suc)
    have c1: "c1 = c\<lparr>conn_consumers := conn_consumers c
        @ [\<lparr>jh_ctx = Some (length (js_callbacks w))\<rparr>]\<rparr>"
      and w1: "js_callbacks w1 = js_callbacks w @ [group_callback E c g]"
      using res(5,6) None by simp_all
    show ?thesis
    proof (intro exI [of _ "Suc n"] conjI)
      show "Suc n \<le> length (g # gs)" "r = None \<longleftrightarrow> Suc n = length (g # gs)"
        using n(1,2) by simp_all
      show "c' = c\<lparr>conn_consumers := conn_consumers c
          @ map (\<lambda>i. \<lparr>jh_ctx = Some (length (js_callbacks w) + i)\<rparr>) [0..<Suc n]\<rparr>"
        unfolding upt n(3) c1 w1 by (simp add: comp_def)
      show "js_callbacks w' = js_callbacks w @ map (group_callback E c) (take (Suc n) (g # gs))"
        unfolding n(4) c1 w1 by simp
    qed
  qed
qed

lemma start_list_creations:
  assumes "start_list E gs c w = Some (None, c', w')"
  shows "creations (trace w') = creations (trace w)
    @ map (\<lambda>g. (cc_stream (hd g), group_js_config E (conn_consumerDefaults c) (hd g) g)) gs"
  using assms
proof (induction gs arbitrary: c w)
  case Nil
  then show ?case by simp
next
  case (Cons g gs)
  then obtain c1 w1 where g: "start_group E g c w = Some (None, c1, w1)"
    and gs: "start_list E gs c1 w1 = Some (None, c', w')"
    by (auto simp: bind_eq_Some_conv split: option.splits)
  from Cons.IH [OF gs] start_group_result(5,7) [OF g] show ?case by auto
qed

lemma start_list_defined:
  "\<forall>g \<in> set gs. g \<noteq> [] \<Longrightarrow> conn_js c \<Longrightarrow> \<exists>r c' w'. start_list E gs c w = Some (r, c', w')"
proof (induction gs arbitrary: c w)
  case Nil
  then show ?case by simp
next
  case (Cons g gs)
  then obtain r1 c1 w1 where g: "start_group E g c w = Some (r1, c1, w1)"
    using start_group_defined by (metis list.set_intros(1))
  from start_group_result(5) [OF g] Cons.prems have "conn_js c1" by simp
  with Cons g show ?case by (cases r1) auto
qed

section \<open>Properties of the deferred JetStream consumers\<close>

text \<open>
  C18: The grouping loop partitions the collected configurations. It builds exactly one group for
  every key that occurs, in the order in which the keys first occur; a group holds all
  configurations with its key and no other, in the order of declaration; no configuration is lost
  and none is in two groups.
\<close>

theorem grouping_spec:
  "case group_configs cfgs Map.empty [] of
     (groups, order) \<Rightarrow>
       order = nub (map consumerGroupKey cfgs) \<and> distinct order \<and> dom groups = set order \<and>
       (\<forall>k. groups k = (let g = filter (\<lambda>cfg. consumerGroupKey cfg = k) cfgs
                        in if g = [] then None else Some g)) \<and>
       map (\<lambda>k. the (groups k)) order = groups_of cfgs \<and>
       mset (concat (groups_of cfgs)) = mset cfgs"
  unfolding group_configs_eq
  by (auto simp: mset_groups_of [unfolded groups_of_def] groups_of_def Let_def filter_empty_conv
      dom_def)

text \<open>
  C8: \<open>startPendingJSConsumers\<close> returns whatever the broker answers. On success it has created
  exactly one JetStream consumer per group, in order, and consumes from each of them with a callback
  that has the handlers of the whole group; the connection holds one handle per consumer, pointing
  at its callback, and nothing is pending any more. On failure the groups before the first failure
  are the ones started, and the collected configurations are all still pending.
\<close>

theorem startPendingJSConsumers_spec:
  assumes "conn_js c"
  shows "let gs = groups_of (conn_pendingJSConsumers c) in \<exists>r c' w' n.
    startPendingJSConsumers E c w = Some (r, c', w') \<and> n \<le> length gs \<and>
    (r = None \<longleftrightarrow> n = length gs) \<and>
    conn_consumers c' = conn_consumers c
      @ map (\<lambda>i. \<lparr>jh_ctx = Some (length (js_callbacks w) + i)\<rparr>) [0..<n] \<and>
    js_callbacks w' = js_callbacks w @ map (group_callback E c) (take n gs) \<and>
    conn_pendingJSConsumers c' = (if r = None then [] else conn_pendingJSConsumers c) \<and>
    (r = None \<longrightarrow> creations (trace w') = creations (trace w)
       @ map (\<lambda>g. (cc_stream (hd g), group_js_config E (conn_consumerDefaults c) (hd g) g)) gs)"
proof -
  let ?gs = "groups_of (conn_pendingJSConsumers c)"
  obtain r c1 w' where run: "start_list E ?gs c w = Some (r, c1, w')"
    using start_list_defined [of ?gs c E w] groups_of_not_Nil assms by blast
  obtain n where n: "n \<le> length ?gs" "r = None \<longleftrightarrow> n = length ?gs"
    "c1 = c\<lparr>conn_consumers := conn_consumers c
        @ map (\<lambda>i. \<lparr>jh_ctx = Some (length (js_callbacks w) + i)\<rparr>) [0..<n]\<rparr>"
    "js_callbacks w' = js_callbacks w @ map (group_callback E c) (take n ?gs)"
    using start_list_result [OF run] by blast
  have cr: "creations (trace w') = creations (trace w)
      @ map (\<lambda>g. (cc_stream (hd g), group_js_config E (conn_consumerDefaults c) (hd g) g)) ?gs"
    if "r = None"
    using start_list_creations run that by blast
  let ?c' = "if r = None then c1\<lparr>conn_pendingJSConsumers := []\<rparr> else c1"
  have "startPendingJSConsumers E c w = Some (r, ?c', w')"
    by (simp add: startPendingJSConsumers_eq run)
  moreover have "conn_consumers ?c' = conn_consumers c
      @ map (\<lambda>i. \<lparr>jh_ctx = Some (length (js_callbacks w) + i)\<rparr>) [0..<n]"
    "conn_pendingJSConsumers ?c' = (if r = None then [] else conn_pendingJSConsumers c)"
    using n(3) by simp_all
  ultimately show ?thesis
    unfolding Let_def using n(1,2,4) cr by blast
qed

definition demo_config :: "string \<Rightarrow> int \<Rightarrow> (unit, nat) consumerConfig" where
  "demo_config k n =
     \<lparr>cc_stream = ''events'', cc_routingKey = k, cc_consumerName = ''svc'', cc_ephemeral = False,
      cc_handler = (\<lambda>_ _ s. Some (None, s)), cc_suffix = '''', cc_maxDeliver = n,
      cc_backOff = None\<rparr>"

theorem startPendingJSConsumers_spec_witness:
  "\<exists>c' w'. startPendingJSConsumers demo_ext (zero_connection\<lparr>conn_js := True,
       conn_pendingJSConsumers := [demo_config ''a'' 0, demo_config ''b'' 0]\<rparr>) demo_nworld
     = Some (None, c', w') \<and> conn_consumers c' = [\<lparr>jh_ctx = Some 0\<rparr>] \<and> conn_pendingJSConsumers c' = [] \<and>
     length (creations (trace w')) = 1"
proof -
  let ?c = "zero_connection\<lparr>conn_js := True,
     conn_pendingJSConsumers := [demo_config ''a'' 0, demo_config ''b'' 0]\<rparr>"
  have gs: "length (groups_of (conn_pendingJSConsumers ?c)) = 1"
    by (simp add: groups_of_def consumerGroupKey_def demo_config_def)
  obtain c' w' where "startPendingJSConsumers demo_ext ?c demo_nworld = Some (None, c', w')"
    by (simp add: startPendingJSConsumers_eq groups_of_def consumerGroupKey_def demo_config_def
        start_group_def ensureStream_eq Let_def perform_def demo_ext_def)
  with startPendingJSConsumers_spec [of ?c demo_ext demo_nworld] gs show ?thesis
    by (auto simp: Let_def demo_nworld_def zero_connection_def)
qed

text \<open>A name that a configuration made by the package can have.\<close>

lemma newConsumerConfig_name:
  assumes "list_all pkg_option opts" and "service \<noteq> ''''"
    and "newConsumerConfig E stream k ephemeral h service opts = Inr cfg"
  shows "cc_stream cfg = stream" "cc_ephemeral cfg \<longleftrightarrow> cc_consumerName cfg = ''''"
  using apply_options_frame [OF assms(1)] assms(2,3)
  by (fastforce simp: newConsumerConfig_def Let_def consumerName_def consumerNameWithSuffix_def
      split: sum.splits if_splits)+

lemma consumerGroupKey_inject:
  assumes "CHR '':'' \<notin> set (cc_stream a)" and "CHR '':'' \<notin> set (cc_stream b)"
    and "consumerGroupKey a = consumerGroupKey b"
  shows "cc_stream a = cc_stream b \<and> cc_consumerName a = cc_consumerName b"
proof -
  have split: "takeWhile (\<lambda>c. c \<noteq> CHR '':'') (s @ '':'' @ n) = s"
    if "CHR '':'' \<notin> set s" for s n
    using that by (subst takeWhile_append2) (auto intro: takeWhile_eq_all_conv [THEN iffD2])
  have "cc_stream a = cc_stream b"
    using assms split [OF assms(1), of "cc_consumerName a"] split [OF assms(2), of "cc_consumerName b"]
    by (simp add: consumerGroupKey_def)
  with assms(3) show ?thesis by (simp add: consumerGroupKey_def)
qed

text \<open>
  C17: A group is one consumer. If the service has a name and no stream name contains a colon, the
  configurations that end up in one group agree on the stream, on the durable name and on being
  ephemeral: durable and ephemeral registrations, different suffixes and different streams never
  share a JetStream consumer, and registrations that agree on all three always do.
\<close>

theorem groups_homogeneous:
  assumes "service \<noteq> ''''"
    and "\<forall>cfg \<in> set cfgs. \<exists>stream k e h opts. list_all pkg_option opts \<and>
           CHR '':'' \<notin> set stream \<and> newConsumerConfig E stream k e h service opts = Inr cfg"
    and "a \<in> set cfgs" and "b \<in> set cfgs"
  shows "(\<exists>g \<in> set (groups_of cfgs). a \<in> set g \<and> b \<in> set g) \<longleftrightarrow>
    cc_stream a = cc_stream b \<and> cc_consumerName a = cc_consumerName b \<and>
    cc_ephemeral a = cc_ephemeral b"
proof -
  have wf: "CHR '':'' \<notin> set (cc_stream cfg) \<and> (cc_ephemeral cfg \<longleftrightarrow> cc_consumerName cfg = '''')"
    if "cfg \<in> set cfgs" for cfg
  proof -
    from assms(2) that obtain stream k e h opts where
      cfg: "list_all pkg_option opts" "CHR '':'' \<notin> set stream"
      "newConsumerConfig E stream k e h service opts = Inr cfg" by blast
    from newConsumerConfig_name [OF cfg(1) assms(1) cfg(3)] cfg(2) show ?thesis by simp
  qed
  have "(\<exists>g \<in> set (groups_of cfgs). a \<in> set g \<and> b \<in> set g)
      \<longleftrightarrow> consumerGroupKey a = consumerGroupKey b"
    using assms(3,4) by (auto simp: groups_of_def)
  also have "\<dots> \<longleftrightarrow> cc_stream a = cc_stream b \<and> cc_consumerName a = cc_consumerName b"
    using consumerGroupKey_inject wf assms(3,4) by (auto simp: consumerGroupKey_def)
  finally show ?thesis using wf assms(3,4) by auto
qed

theorem groups_homogeneous_witness:
  "\<exists>a b. newConsumerConfig demo_ext ''events'' ''x'' False (\<lambda>_ _ s. Some (None, s)) ''svc''
        ([] :: (unit, nat) ConsumerOptions list) = Inr a \<and>
     newConsumerConfig demo_ext ''events'' ''x'' True (\<lambda>_ _ s. Some (None, s)) ''svc'' [] = Inr b \<and>
     \<not> (\<exists>g \<in> set (groups_of [a, b]). a \<in> set g \<and> b \<in> set g)"
proof -
  let ?h = "(\<lambda>_ _ s. Some (None, s)) :: (unit, nat) wrappedHandler"
  obtain a b where ab:
    "newConsumerConfig demo_ext ''events'' ''x'' False ?h ''svc''
        ([] :: (unit, nat) ConsumerOptions list) = Inr a"
    "newConsumerConfig demo_ext ''events'' ''x'' True ?h ''svc'' [] = Inr b"
    "cc_ephemeral a \<noteq> cc_ephemeral b"
    by (simp add: newConsumerConfig_def Let_def)
  have "\<forall>cfg \<in> set [a, b]. \<exists>stream k e h opts. list_all pkg_option opts \<and>
      CHR '':'' \<notin> set stream \<and> newConsumerConfig demo_ext stream k e h ''svc'' opts = Inr cfg"
  proof -
    have "\<exists>stream k e h opts. list_all pkg_option opts \<and> CHR '':'' \<notin> set stream \<and>
        newConsumerConfig demo_ext stream k e h ''svc'' opts = Inr cfg"
      if "newConsumerConfig demo_ext ''events'' ''x'' e ?h ''svc'' [] = Inr cfg" for e cfg
      using that
      by (intro exI [of _ "''events''"] exI [of _ "''x''"] exI [of _ e] exI [of _ ?h] exI [of _ "[]"])
        simp
    from this [OF ab(1)] this [OF ab(2)] show ?thesis by simp
  qed
  from groups_homogeneous [OF _ this, of a b] ab show ?thesis by auto
qed

text \<open>
  Without the condition on colons it fails: a durable consumer with a suffix on one stream and a
  consumer of the same service on another stream get the same key, and are started as one consumer.
\<close>

lemma group_key_collision:
  "\<exists>a b :: (unit, nat) consumerConfig.
     newConsumerConfig demo_ext ''a'' ''x'' False h ''svc'' [AddConsumerNameSuffix ''x:svc''] = Inr a \<and>
     newConsumerConfig demo_ext ''a:svc-x'' ''x'' False h ''svc'' [] = Inr b \<and>
     cc_stream a \<noteq> cc_stream b \<and> groups_of [a, b] = [[a, b]]"
  by (simp add: newConsumerConfig_def Let_def AddConsumerNameSuffix_def consumerName_def
      consumerNameWithSuffix_def groups_of_def consumerGroupKey_def)

text \<open>The handler table of a group, by the laws of handler tables.\<close>

definition group_table :: "('x, 'app) consumerConfig list \<Rightarrow> (string \<times> ('x, 'app) wrappedHandler) list" where
  "group_table g = map (\<lambda>cfg. (cc_routingKey cfg, cc_handler cfg)) g"

lemma group_table_handlers:
  "jsc_handlers (group_consumer E c first g) = fold (\<lambda>(p, h) t. rkh_add t p h) (group_table g) []"
  "gomap_ok (jsc_handlers (group_consumer E c first g))"
  "map_of (jsc_handlers (group_consumer E c first g)) = map_of (rev (group_table g))"
proof -
  show t: "jsc_handlers (group_consumer E c first g)
      = fold (\<lambda>(p, h) t. rkh_add t p h) (group_table g) []"
    by (simp add: group_consumer_def group_table_def fold_map comp_def)
  show "gomap_ok (jsc_handlers (group_consumer E c first g))"
    unfolding t by (rule rkh.invar_register_all) (simp add: gomap_ok_def)
  show "map_of (jsc_handlers (group_consumer E c first g)) = map_of (rev (group_table g))"
    unfolding t using rkh.entries_register_all [of "[]" "group_table g"] by (simp add: gomap_ok_def)
qed

lemma group_table_last:
  "p \<in> cc_routingKey ` set g \<Longrightarrow> map_of (rev (group_table g)) p
     = Some (cc_handler (last (filter (\<lambda>cfg. cc_routingKey cfg = p) g)))"
  by (induction g rule: rev_induct) (auto simp: group_table_def filter_empty_conv)

lemma group_dispatch_unique:
  assumes "filter (\<lambda>p. spec_MatchRoutingKey E p k) (nub (map cc_routingKey g)) = [p]"
  shows "rkh_get E rank (jsc_handlers (group_consumer E c first g)) k
    = Some (cc_handler (last (filter (\<lambda>cfg. cc_routingKey cfg = p) g)))"
proof (rule rkh.dispatch_unique [OF group_table_handlers(2)])
  have "set (filter (\<lambda>p. spec_MatchRoutingKey E p k) (nub (map cc_routingKey g))) = {p}"
    using assms by simp
  then have set: "{q \<in> cc_routingKey ` set g. spec_MatchRoutingKey E q k} = {p}" by simp
  then have p: "p \<in> cc_routingKey ` set g" "spec_MatchRoutingKey E p k" by auto
  then show "map_of (jsc_handlers (group_consumer E c first g)) p
      = Some (cc_handler (last (filter (\<lambda>cfg. cc_routingKey cfg = p) g)))" "spec_MatchRoutingKey E p k"
    by (simp_all add: group_table_handlers(3) group_table_last)
  show "q = p" if q: "map_of (jsc_handlers (group_consumer E c first g)) q = Some h"
    "spec_MatchRoutingKey E q k" for q h
  proof -
    have "q \<in> cc_routingKey ` set g"
      using q(1) by (auto simp: group_table_handlers(3) group_table_def dest!: map_of_SomeD)
    with set q(2) show ?thesis by blast
  qed
qed

text \<open>
  C19: Every registration of a group is served. A message with routing key \<open>k\<close> that reaches the
  JetStream consumer of a group is given to the handler of a configuration of that group whose
  pattern matches \<open>k\<close>, if there is one; if a single pattern of the group matches, it is the handler
  of the last configuration with that pattern: a second registration for the same routing key
  silently replaces the first.
\<close>

theorem group_dispatch:
  "(case rkh_get E rank (jsc_handlers (group_consumer E c first g)) k of
      None \<Rightarrow> list_all (\<lambda>cfg. \<not> spec_MatchRoutingKey E (cc_routingKey cfg) k) g
    | Some h \<Rightarrow> list_ex (\<lambda>cfg. cc_handler cfg = h \<and> spec_MatchRoutingKey E (cc_routingKey cfg) k) g) \<and>
   (filter (\<lambda>p. spec_MatchRoutingKey E p k) (nub (map cc_routingKey g)) = [p] \<longrightarrow>
    rkh_get E rank (jsc_handlers (group_consumer E c first g)) k
      = Some (cc_handler (last (filter (\<lambda>cfg. cc_routingKey cfg = p) g))))"
proof -
  let ?t = "jsc_handlers (group_consumer E c first g)"
  have "list_all (\<lambda>cfg. \<not> spec_MatchRoutingKey E (cc_routingKey cfg) k) g"
    if "rkh_get E rank ?t k = None"
    using rkh.dispatch_None [OF group_table_handlers(2) that]
    by (force simp: group_table_handlers(3) group_table_def map_of_eq_None_iff list_all_iff)
  moreover have "list_ex (\<lambda>cfg. cc_handler cfg = h \<and> spec_MatchRoutingKey E (cc_routingKey cfg) k) g"
    if "rkh_get E rank ?t k = Some h" for h
    using rkh.dispatch_registered [OF that [unfolded group_table_handlers(1)]]
    by (auto simp: group_table_def list_ex_iff)
  ultimately show ?thesis
    using group_dispatch_unique [of E k g p rank c first] by (auto split: option.split)
qed

theorem group_dispatch_witness:
  "rkh_get demo_ext (\<lambda>_. 0) (jsc_handlers (group_consumer demo_ext zero_connection
      (demo_config ''a'' 0) [demo_config ''a'' 0, demo_config ''b'' 0])) ''b''
    = Some (cc_handler (demo_config ''b'' 0))"
proof -
  have "filter (\<lambda>p. spec_MatchRoutingKey demo_ext p ''b'')
      (nub (map cc_routingKey [demo_config ''a'' 0, demo_config ''b'' 0])) = [''b'']"
    by (simp add: demo_ext_def demo_config_def)
  with group_dispatch [where E = demo_ext and rank = "\<lambda>_. 0" and c = zero_connection
      and first = "demo_config ''a'' 0" and g = "[demo_config ''a'' 0, demo_config ''b'' 0]"
      and k = "''b''" and p = "''b''", THEN conjunct2]
  show ?thesis by (simp add: demo_config_def)
qed

section \<open>Properties of requests and publishers\<close>

text \<open>What a request handler's result is sent back as.\<close>

definition response ::
  "'x ext \<Rightarrow> ('r \<Rightarrow> go_error + string) \<Rightarrow> go_error + 'r \<Rightarrow> go_error + string" where
  "response E marshal result =
     (case result of
        Inl e \<Rightarrow> Inl e
      | Inr resp \<Rightarrow>
          (case marshal resp of
             Inl e \<Rightarrow> Inl (wrap_error (ext_error_text E) ''failed to marshal response'' e)
           | Inr bytes \<Rightarrow> Inr bytes))"

definition reply_data :: "'x ext \<Rightarrow> go_error + string \<Rightarrow> string" where
  "reply_data E r = (case r of Inl e \<Rightarrow> json_error_object (err_text E e) | Inr bytes \<Rightarrow> bytes)"

lemma requestResponseWrapper_eq:
  "requestResponseWrapper E T marshal handler ctx ev s =
     (case ty_Unmarshal T (ue_Payload ev) of
        Inl e \<Rightarrow> Some (Inl (parse_error (ext_error_text E) e), s)
      | Inr v \<Rightarrow> map_option (\<lambda>(r, s). (response E marshal r, s))
          (handler ctx \<lparr>ce_Metadata = ue_Metadata ev, ce_DeliveryInfo = ue_DeliveryInfo ev,
                        ce_Payload = v\<rparr> s))"
proof (cases "ty_Unmarshal T (ue_Payload ev)")
  case (Inl e)
  then show ?thesis by (simp add: requestResponseWrapper_def)
next
  case (Inr v)
  then show ?thesis
    by (cases "handler ctx \<lparr>ce_Metadata = ue_Metadata ev, ce_DeliveryInfo = ue_DeliveryInfo ev,
                        ce_Payload = v\<rparr> s")
      (auto simp: requestResponseWrapper_def response_def split: sum.split)
qed

lemma request_callback_run:
  fixes w :: "('x, 'app, 'w) cworld_scheme"
  assumes "jsc_spanNameFn consumer \<noteq> None" and "total_handler h"
  shows "\<exists>r ctx ev w'. request_callback E consumer k name h msg w = Some w' \<and>
    h ctx ev (app w) = Some (r, app w') \<and>
    ue_Payload ev = msg_Data msg \<and> di_Key (ue_DeliveryInfo ev) = k \<and>
    counters (trace w') = counters (trace w) \<and> nchans w' = nchans w \<and> echans w' = echans w \<and>
    replies (trace w') = replies (trace w)
      @ (if msg_Reply msg = '''' then [] else [(msg_Reply msg, reply_data E r)])"
proof -
  let ?info = "\<lparr>di_Destination = name, di_Source = msg_Subject msg, di_Key = k,
    di_Headers = fromNATSHeaders E (map_rank E (trace w) ''fromNATSHeaders'') (msg_Header msg)\<rparr>"
  obtain f where f: "jsc_spanNameFn consumer = Some f" using assms(1) by blast
  obtain r t0 w1 where inv: "invoke_handler E consumer ?info (msg_Header msg) (msg_Data msg) h w
      = Some (r, t0, w1)"
  proof -
    have "invoke_handler E consumer ?info (msg_Header msg) (msg_Data msg) h w \<noteq> None"
      using assms(2) f by (simp add: invoke_handler_def Let_def total_handler_def split: bind_splits)
    then show thesis using that by auto
  qed
  note iv = invoke_handler_views [OF inv]
  obtain ctx where h: "h ctx (event_of E ?info (msg_Data msg)) (app w) = Some (r, app w1)"
    using iv(8) by blast
  obtain w' where run: "request_callback E consumer k name h msg w = Some w'"
    and w': "counters (trace w') = counters (trace w)" "nchans w' = nchans w" "echans w' = echans w"
      "app w' = app w1" "replies (trace w') = replies (trace w)
        @ (if msg_Reply msg = '''' then [] else [(msg_Reply msg, reply_data E r)])"
    by (cases r) (simp_all add: request_callback_def Let_def inv reply_data_def iv error_reply_def)
  have "ue_Payload (event_of E ?info (msg_Data msg)) = msg_Data msg"
    "di_Key (ue_DeliveryInfo (event_of E ?info (msg_Data msg))) = k"
    by (simp_all add: event_of_def)
  with h w' run show ?thesis by metis
qed

text \<open>
  C15: A request with a reply subject is answered exactly once. As long as there is a span name
  function and the typed handler does not panic, the callback of \<open>RequestResponseHandler\<close>
  returns; the request is decoded and handed to the handler at most once; the reply is the
  marshalled response, or the JSON error object of the decoding error, of the handler's error or of
  the marshalling error. Without a reply subject nothing is sent. Neither counters nor notification
  channels are touched.
\<close>

theorem request_callback_replies:
  fixes w :: "('x, 'app, 'w) cworld_scheme"
  assumes "jsc_spanNameFn consumer \<noteq> None"
    and "\<And>ctx ev s. handler ctx ev s \<noteq> None"
  shows "\<exists>w'. request_callback E consumer k name (requestResponseWrapper E T marshal handler) msg w
      = Some w' \<and>
    counters (trace w') = counters (trace w) \<and> nchans w' = nchans w \<and> echans w' = echans w \<and>
    (\<exists>r. replies (trace w') = replies (trace w)
        @ (if msg_Reply msg = '''' then [] else [(msg_Reply msg, reply_data E r)]) \<and>
      (case ty_Unmarshal T (msg_Data msg) of
         Inl e \<Rightarrow> app w' = app w \<and> r = Inl (parse_error (ext_error_text E) e)
       | Inr v \<Rightarrow> \<exists>ctx ev result. handler ctx ev (app w) = Some (result, app w') \<and>
           ce_Payload ev = v \<and> di_Key (ce_DeliveryInfo ev) = k \<and> r = response E marshal result))"
proof -
  let ?h = "requestResponseWrapper E T marshal handler"
  have "total_handler ?h"
    using assms(2) by (simp add: total_handler_def requestResponseWrapper_eq split: sum.split) metis
  from request_callback_run [OF assms(1) this, of E k name msg w]
  obtain r ctx ev w' where run: "request_callback E consumer k name ?h msg w = Some w'"
    and h: "?h ctx ev (app w) = Some (r, app w')"
    and ev: "ue_Payload ev = msg_Data msg" "di_Key (ue_DeliveryInfo ev) = k"
    and w': "counters (trace w') = counters (trace w)" "nchans w' = nchans w" "echans w' = echans w"
      "replies (trace w') = replies (trace w)
        @ (if msg_Reply msg = '''' then [] else [(msg_Reply msg, reply_data E r)])"
    by blast
  have "case ty_Unmarshal T (msg_Data msg) of
         Inl e \<Rightarrow> app w' = app w \<and> r = Inl (parse_error (ext_error_text E) e)
       | Inr v \<Rightarrow> \<exists>ctx ev result. handler ctx ev (app w) = Some (result, app w') \<and>
           ce_Payload ev = v \<and> di_Key (ce_DeliveryInfo ev) = k \<and> r = response E marshal result"
    using h ev
    by (auto simp: requestResponseWrapper_eq split: sum.splits
        intro!: exI [of _ ctx] exI [of _ "\<lparr>ce_Metadata = ue_Metadata ev,
          ce_DeliveryInfo = ue_DeliveryInfo ev, ce_Payload = v\<rparr>" for v])
  with run w' show ?thesis by blast
qed

theorem request_callback_replies_witness:
  "\<exists>w'. request_callback demo_ext demo_consumer ''Order.Get'' ''svc''
      (requestResponseWrapper demo_ext demo_type (\<lambda>r. Inr r) (\<lambda>_ ev s. Some (Inr ''{}'', s)))
      \<lparr>msg_Subject = ''svc.request.Order.Get'', msg_Reply = ''_INBOX.1'', msg_Header = [],
       msg_Data = ''x''\<rparr> demo_cworld = Some w' \<and> length (replies (trace w')) = 1"
proof -
  have "jsc_spanNameFn demo_consumer \<noteq> None" by (simp add: demo_consumer_def)
  moreover have "(\<lambda>_ ev s. Some (Inr ''{}'', s) :: ((go_error + string) \<times> nat) option) ctx ev s \<noteq> None"
    for ctx :: unit and ev :: "(unit, 'a) ConsumableEvent" and s
    by simp
  ultimately show ?thesis
    using request_callback_replies [of demo_consumer "\<lambda>_ ev s. Some (Inr ''{}'', s)" demo_ext
        "''Order.Get''" "''svc''" demo_type "\<lambda>r. Inr r" "\<lparr>msg_Subject = ''svc.request.Order.Get'',
          msg_Reply = ''_INBOX.1'', msg_Header = [], msg_Data = ''x''\<rparr>" demo_cworld]
    by (auto simp: demo_cworld_def)
qed

lemma subscribe_result:
  assumes "subscribe E subject cb what c w = Some (r, c', w')"
  shows "if r = None
    then core_callbacks w' = core_callbacks w @ [(subject, cb)] \<and>
         c' = c\<lparr>conn_subscriptions := conn_subscriptions c @ [length (core_callbacks w)]\<rparr> \<and>
         trace w' = trace w @ [NcSubscribe subject, Log LevelInfo what]
    else core_callbacks w' = core_callbacks w \<and> c' = c \<and> trace w' = trace w @ [NcSubscribe subject]"
    "js_callbacks w' = js_callbacks w" "pubs w' = pubs w"
  using assms by (auto simp: subscribe_def perform_def Let_def split: option.splits)

text \<open>
  \<open>ServicePublisher\<close> always succeeds and wires the publisher, and no other, to Core NATS requests with
  the configured timeout (30 seconds where none is set). The setup functions for requests subscribe
  to the subject that such a publisher uses for their routing key.
\<close>

lemma ServicePublisher_wired:
  assumes "\<not> conn_collectMode c"
  shows "\<exists>c' w'. ServicePublisher E target pid c w = Some (None, c', w') \<and>
    p_publishFn (pubs w' pid) = Some (CoreRequest (if conn_requestTimeout c = 0 then 30 * second
                                                   else conn_requestTimeout c)) \<and>
    (\<forall>i. i \<noteq> pid \<longrightarrow> pubs w' i = pubs w i) \<and>
    (\<forall>k. publish_subject E (pubs w' pid) k = serviceRequestSubject target k)"
  using assms by (auto simp: ServicePublisher_def Let_def publisher_setup_def publish_subject_def)

lemma RequestResponseHandler_subscribes:
  assumes "\<not> conn_collectMode d"
    and "RequestResponseHandler E T marshal k handler d v = Some (None, d', v')"
  shows "core_callbacks v' = core_callbacks v @ [(serviceRequestSubject (conn_serviceName d) k,
    RequestCallback (core_consumer E d (conn_serviceName d)) k (conn_serviceName d)
      (requestResponseWrapper E T marshal handler))]"
  using assms
  by (auto simp: RequestResponseHandler_def startRequestResponseConsumer_def Let_def
      bind_eq_Some_conv split: option.splits dest!: subscribe_result(1))

lemma ServiceRequestConsumer_subscribes:
  assumes "\<not> conn_collectMode d"
    and "ServiceRequestConsumer E U k handler opts d v = Some (None, d', v')"
  shows "map fst (core_callbacks v')
    = map fst (core_callbacks v) @ [serviceRequestSubject (conn_serviceName d) k]"
  using assms
  by (auto simp: ServiceRequestConsumer_def startCoreConsumer_def Let_def
      bind_eq_Some_conv split: option.splits dest!: subscribe_result(1))

text \<open>
  C30: Wiring a publisher to a stream. Outside collection, \<open>StreamPublisher\<close> first makes sure that
  the stream exists. If the broker refuses, the setup fails with an error that wraps the broker's,
  and neither the publisher nor the topology changes. Otherwise the publisher publishes to JetStream
  from then on, its stream is the one ensured, and one endpoint is declared. A subject function left
  by an earlier \<open>ServicePublisher\<close> on the same publisher stays in force.
\<close>

theorem StreamPublisher_wires:
  assumes "\<not> conn_collectMode c" and "conn_js c"
  shows "let name = streamName E stream;
             t = trace w @ retention_warning (retention c name);
             call = CreateOrUpdateStream (wanted_stream c name)
         in \<exists>r c' w'. StreamPublisher E stream pid c w = Some (r, c', w') \<and>
           (case answer E t call of
              Some e \<Rightarrow> c' = c \<and> pubs w' = pubs w \<and>
                r = Some (wrap_error (ext_error_text E) (''failed to ensure stream '' @ name) e)
            | None \<Rightarrow> r = None \<and> p_publishFn (pubs w' pid) = Some JsPublish \<and>
                p_stream (pubs w' pid) = name \<and> (\<forall>i. i \<noteq> pid \<longrightarrow> pubs w' i = pubs w i) \<and>
                (\<forall>k. publish_subject E (pubs w' pid) k
                   = (case p_subjectFn (pubs w pid) of None \<Rightarrow> subjectName E name k
                      | Some f \<Rightarrow> f name k)) \<and>
                length (tp_Endpoints (Topology c')) = Suc (length (tp_Endpoints (Topology c))))"
  using assms
  by (auto simp: StreamPublisher_def ensureStream_eq Let_def publisher_setup_def
      publish_subject_def Topology_def split: option.split)

theorem StreamPublisher_wires_witness:
  "\<exists>c' w'. StreamPublisher demo_ext ''events'' 0 (zero_connection\<lparr>conn_js := True\<rparr>) demo_nworld
      = Some (None, c', w') \<and>
    publish_subject demo_ext (pubs w' 0) ''Order.Created'' = ''events.Order.Created''"
  using StreamPublisher_wires [of "zero_connection\<lparr>conn_js := True\<rparr>" demo_ext "''events''"
      demo_nworld 0]
  by (auto simp: Let_def zero_connection_def demo_ext_def demo_nworld_def NewPublisher_def
      subjectName_def streamName_def)

end
