(* ===== verification/Lifecycle.thy ===== *)
theory Lifecycle
  imports Setups
begin

text \<open>
  \<open>Start\<close> of \<open>connection.go\<close> and \<open>CollectTopology\<close> of \<open>topology_export.go\<close>, the contract between
  them and the setup functions they run (locale \<open>lawful_setups\<close>), and the connection as a state
  machine: the application starts it, publishes and closes it while NATS delivers messages.
\<close>

section \<open>Definitions\<close>

text \<open>
  A setup function comes with the name that \<open>getSetupFuncName\<close> finds for it at run time. Running
  the setup functions in order stops at the first error.
\<close>

type_synonym ('x, 'app) named_setup = "string \<times> ('x, 'app) Setup"

definition getSetupFuncName :: "('x, 'app) named_setup \<Rightarrow> string" where
  "getSetupFuncName f = fst f"

fun run_setups ::
  "'x ext \<Rightarrow> ('x, 'app) named_setup list \<Rightarrow> ('x, 'app) connection \<Rightarrow> ('x, 'app) nworld
   \<Rightarrow> (go_error option \<times> ('x, 'app) connection \<times> ('x, 'app) nworld) option" where
  "run_setups E [] c w = Some (None, c, w)"
| "run_setups E (f # fs) c w =
     do {
       (err, c, w) \<leftarrow> snd f c w;
       (case err of
          Some err \<Rightarrow>
            Some (Some (wrap_error (ext_error_text E)
              (''setup function <'' @ getSetupFuncName f @ ''> failed'') err), c, w)
        | None \<Rightarrow> run_setups E fs c w)
     }"

definition Start ::
  "'x ext \<Rightarrow> ('x, 'app) named_setup list \<Rightarrow> ('x, 'app) connection \<Rightarrow> ('x, 'app) nworld
   \<Rightarrow> (go_error option \<times> ('x, 'app) connection \<times> ('x, 'app) nworld) option" where
  "Start E opts c w =
     (if conn_started c then Some (Some (Known ErrAlreadyStarted), c, w)
      else
        (let c = (if conn_spanNameFn c = None
                  then c\<lparr>conn_spanNameFn := Some defaultSpanNameFn\<rparr> else c)
         in if conn_collectMode c then
              do {
                (err, c, w) \<leftarrow> run_setups E opts c w;
                (case err of
                   Some err \<Rightarrow> Some (Some err, c, w)
                 | None \<Rightarrow> Some (None, c\<lparr>conn_started := True\<rparr>, w))
              }
            else
              (case perform E (NatsConnect (conn_natsURL c) (conn_natsOpts c)) w of
                 (Some err, w) \<Rightarrow>
                   Some (Some (wrap_error (ext_error_text E) ''failed to connect to NATS'' err), c, w)
               | (None, w) \<Rightarrow>
                   (let c = c\<lparr>conn_nc := True\<rparr>
                    in case perform E JetStreamNew w of
                         (Some err, w) \<Rightarrow>
                           Some (Some (wrap_error (ext_error_text E)
                             ''failed to create JetStream context'' err), c, emit NcClose w)
                       | (None, w) \<Rightarrow>
                           do {
                             let c = c\<lparr>conn_js := True\<rparr>;
                             let w = log_at LevelInfo ''connected to NATS'' w;
                             (err, c, w) \<leftarrow> run_setups E opts c w;
                             (case err of
                                Some err \<Rightarrow> Some (Some err, c, emit NcClose w)
                              | None \<Rightarrow>
                                  do {
                                    (err, c, w) \<leftarrow> startPendingJSConsumers E c w;
                                    (case err of
                                       Some err \<Rightarrow> Some (Some err, c, emit NcClose w)
                                     | None \<Rightarrow>
                                         Some (None, c\<lparr>conn_started := True\<rparr>,
                                           log_at LevelInfo ''connection started'' w))
                                  })
                           }))))"

fun collect_setups ::
  "('x, 'app) Setup list \<Rightarrow> ('x, 'app) connection \<Rightarrow> ('x, 'app) nworld
   \<Rightarrow> (go_error option \<times> ('x, 'app) connection \<times> ('x, 'app) nworld) option" where
  "collect_setups [] c w = Some (None, c, w)"
| "collect_setups (f # fs) c w =
     do {
       (err, c, w) \<leftarrow> f c w;
       (case err of Some err \<Rightarrow> Some (Some err, c, w) | None \<Rightarrow> collect_setups fs c w)
     }"

definition CollectTopology ::
  "string \<Rightarrow> ('x, 'app) Setup list \<Rightarrow> ('x, 'app) nworld
   \<Rightarrow> ((go_error + topology) \<times> ('x, 'app) nworld) option" where
  "CollectTopology serviceName setups w =
     do {
       let c = zero_connection
         \<lparr>conn_serviceName := serviceName, conn_logger := Some [],
          conn_topology := \<lparr>tp_Transport = TransportNATS, tp_ServiceName = serviceName,
                            tp_Endpoints = []\<rparr>,
          conn_collectMode := True\<rparr>;
       (err, c, w) \<leftarrow> collect_setups setups c w;
       Some (case err of Some err \<Rightarrow> Inl err | None \<Rightarrow> Inr (conn_topology c), w)
     }"

section \<open>The setup functions of the package\<close>

text \<open>
  The generic setup functions depend on their type parameter only through the wrapped handler and
  the name of the type. Up to that, these are all setup functions of the package.
\<close>

definition stream_consumer ::
  "'x ext \<Rightarrow> bool \<Rightarrow> string \<Rightarrow> ('x, 'app) wrappedHandler \<Rightarrow> string \<Rightarrow> string
   \<Rightarrow> ('x, 'app) ConsumerOptions list \<Rightarrow> ('x, 'app) Setup" where
  "stream_consumer E ephemeral typeName h stream k opts c w =
     (case newConsumerConfig E (streamName E stream) k ephemeral h (conn_serviceName c) opts of
        Inl err \<Rightarrow> Some (Some err, c, w)
      | Inr cfg \<Rightarrow>
          Some (None, addEndpoint
            \<lparr>ep_Direction = DirectionConsume, ep_Pattern = stream_pattern stream,
             ep_ExchangeName = streamName E stream, ep_ExchangeKind = ExchangeTopic,
             ep_QueueName = cc_consumerName cfg, ep_RoutingKey = k,
             ep_MessageType = typeName, ep_Ephemeral = ephemeral\<rparr>
            (c\<lparr>conn_pendingJSConsumers := conn_pendingJSConsumers c @ [cfg]\<rparr>), w))"

definition core_setup ::
  "'x ext \<Rightarrow> (('x, 'app) connection \<Rightarrow> ('x, 'app) core_callback) \<Rightarrow> string \<Rightarrow> string \<Rightarrow> string
   \<Rightarrow> ('x, 'app) Setup" where
  "core_setup E cb what typeName k c w =
     do {
       (err, c, w) \<leftarrow>
         (if \<not> conn_collectMode c
          then subscribe E (serviceRequestSubject (conn_serviceName c) k) (cb c) what c w
          else Some (None, c, w));
       (case err of
          Some err \<Rightarrow> Some (Some err, c, w)
        | None \<Rightarrow> Some (None, addEndpoint
            \<lparr>ep_Direction = DirectionConsume, ep_Pattern = PatternServiceRequest,
             ep_ExchangeName = conn_serviceName c, ep_ExchangeKind = ExchangeDirect,
             ep_QueueName = conn_serviceName c, ep_RoutingKey = k,
             ep_MessageType = typeName, ep_Ephemeral = False\<rparr> c, w))
     }"

definition response_setup :: "string \<Rightarrow> string \<Rightarrow> string \<Rightarrow> ('x, 'app) Setup" where
  "response_setup typeName target k c w =
     Some (None, addEndpoint
       \<lparr>ep_Direction = DirectionConsume, ep_Pattern = PatternServiceResponse,
        ep_ExchangeName = target, ep_ExchangeKind = ExchangeHeaders,
        ep_QueueName = conn_serviceName c, ep_RoutingKey = k,
        ep_MessageType = typeName, ep_Ephemeral = False\<rparr> c, w)"

text \<open>The callbacks such a subscription can have.\<close>

inductive core_cb :: "'x ext \<Rightarrow> (('x, 'app) connection \<Rightarrow> ('x, 'app) core_callback) \<Rightarrow> bool"
  for E :: "'x ext" where
  "core_cb E (\<lambda>c. CoreCallback (core_consumer E c (conn_serviceName c)\<lparr>jsc_handlers := [(k, h)]\<rparr>) k)"
| "core_cb E (\<lambda>c. RequestCallback (core_consumer E c (conn_serviceName c)) k (conn_serviceName c) f)"

inductive pkg_setup :: "'x ext \<Rightarrow> ('x, 'app) Setup \<Rightarrow> bool" for E :: "'x ext" where
  config: "config_setup E f \<Longrightarrow> pkg_setup E f"
| stream: "list_all pkg_option opts \<Longrightarrow>
     pkg_setup E (stream_consumer E ephemeral typeName h stream k opts)"
| core: "core_cb E cb \<Longrightarrow> pkg_setup E (core_setup E cb what typeName k)"
| response: "pkg_setup E (response_setup typeName target k)"
| stream_publisher: "pkg_setup E (StreamPublisher E stream pid)"
| service_publisher: "pkg_setup E (ServicePublisher E target pid)"

lemma StreamConsumer_eq:
  "StreamConsumer E T stream k handler opts
     = stream_consumer E False (ty_String T) (newWrappedHandler E T handler) stream k opts"
  by (rule ext)+ (simp add: StreamConsumer_def stream_consumer_def startJSConsumer_def Let_def
      split: sum.split)

lemma TransientStreamConsumer_eq:
  "TransientStreamConsumer E T stream k handler opts
     = stream_consumer E True (ty_String T) (newWrappedHandler E T handler) stream k opts"
  by (rule ext)+ (simp add: TransientStreamConsumer_def stream_consumer_def startJSConsumer_def
      Let_def split: sum.split)

lemma ServiceRequestConsumer_eq:
  "ServiceRequestConsumer E T k handler opts
     = core_setup E (\<lambda>c. CoreCallback (core_consumer E c (conn_serviceName c)
         \<lparr>jsc_handlers := [(k, newWrappedHandler E T handler)]\<rparr>) k)
         ''started Core subscription'' (ty_String T) k"
  by (rule ext)+ (simp add: ServiceRequestConsumer_def core_setup_def startCoreConsumer_def Let_def
      rkh_add_def core_consumer_def)

lemma RequestResponseHandler_eq:
  "RequestResponseHandler E T marshal k handler
     = core_setup E (\<lambda>c. RequestCallback (core_consumer E c (conn_serviceName c)) k
         (conn_serviceName c) (requestResponseWrapper E T marshal handler))
         ''started request-response consumer'' '''' k"
  by (rule ext)+ (simp add: RequestResponseHandler_def core_setup_def
      startRequestResponseConsumer_def Let_def)

lemma ServiceResponseConsumer_eq:
  "ServiceResponseConsumer T target k handler opts = response_setup (ty_String T) target k"
  by (rule ext)+ (simp add: ServiceResponseConsumer_def response_setup_def)

lemma pkg_setup_intros:
  "list_all pkg_option opts \<Longrightarrow> pkg_setup E (StreamConsumer E T stream k handler opts)"
  "list_all pkg_option opts \<Longrightarrow> pkg_setup E (EventStreamConsumer E T k handler opts)"
  "list_all pkg_option opts \<Longrightarrow> pkg_setup E (TransientStreamConsumer E T stream k handler opts)"
  "list_all pkg_option opts \<Longrightarrow> pkg_setup E (TransientEventStreamConsumer E T k handler opts)"
  "pkg_setup E (ServiceRequestConsumer E T k handler opts)"
  "pkg_setup E (ServiceResponseConsumer T target k handler opts)"
  "pkg_setup E (RequestResponseHandler E T marshal k request_handler)"
  "pkg_setup E (StreamPublisher E stream pid)"
  "pkg_setup E (EventStreamPublisher E pid)"
  "pkg_setup E (ServicePublisher E target pid)"
  by (simp_all add: StreamConsumer_eq TransientStreamConsumer_eq ServiceRequestConsumer_eq
      ServiceResponseConsumer_eq RequestResponseHandler_eq EventStreamConsumer_def
      TransientEventStreamConsumer_def EventStreamPublisher_def pkg_setup.intros core_cb.intros)

section \<open>The contract of setup functions\<close>

text \<open>The calls a setup function may make; none but log records while collecting.\<close>

fun setup_call :: "bool \<Rightarrow> 'x call \<Rightarrow> bool" where
  "setup_call collect (Log l s) \<longleftrightarrow> True"
| "setup_call collect (CreateOrUpdateStream cfg) \<longleftrightarrow> \<not> collect"
| "setup_call collect (NcSubscribe subject) \<longleftrightarrow> \<not> collect"
| "setup_call collect _ \<longleftrightarrow> False"

text \<open>What of a connection a setup function keeps.\<close>

definition same_session :: "('x, 'app) connection \<Rightarrow> ('x, 'app) connection \<Rightarrow> bool" where
  "same_session c c' \<longleftrightarrow>
     conn_serviceName c' = conn_serviceName c \<and> conn_collectMode c' = conn_collectMode c \<and>
     conn_started c' = conn_started c \<and> conn_nc c' = conn_nc c \<and> conn_js c' = conn_js c \<and>
     conn_natsURL c' = conn_natsURL c \<and> conn_natsOpts c' = conn_natsOpts c \<and>
     conn_consumers c' = conn_consumers c"

text \<open>What two connections have in common if the same declarations were made on both.\<close>

definition same_declarations :: "('x, 'app) connection \<Rightarrow> ('x, 'app) connection \<Rightarrow> bool" where
  "same_declarations c d \<longleftrightarrow>
     conn_serviceName c = conn_serviceName d \<and> conn_topology c = conn_topology d \<and>
     conn_pendingJSConsumers c = conn_pendingJSConsumers d"

text \<open>The parts of the world that belong to the application.\<close>

definition same_app :: "('x, 'app) nworld \<Rightarrow> ('x, 'app) nworld \<Rightarrow> bool" where
  "same_app w w' \<longleftrightarrow> app w' = app w \<and> nchans w' = nchans w \<and> echans w' = echans w"

lemma same_app_refl [simp]: "same_app w w"
  by (simp add: same_app_def)

lemma same_app_trans: "same_app u v \<Longrightarrow> same_app v w \<Longrightarrow> same_app u w"
  by (simp add: same_app_def)

lemma same_session_refl [simp]: "same_session c c"
  by (simp add: same_session_def)

lemma same_session_trans: "same_session c d \<Longrightarrow> same_session d e \<Longrightarrow> same_session c e"
  by (simp add: same_session_def)

locale lawful_setups =
  fixes P :: "('x, 'app) Setup \<Rightarrow> bool"
  assumes session: "P f \<Longrightarrow> f c w = Some (r, c', w') \<Longrightarrow> same_session c c'"
    and consumers: "P f \<Longrightarrow> f c w = Some (r, c', w') \<Longrightarrow> js_callbacks w' = js_callbacks w"
    and application: "P f \<Longrightarrow> f c w = Some (r, c', w') \<Longrightarrow> same_app w w'"
    and calls: "P f \<Longrightarrow> f c w = Some (r, c', w') \<Longrightarrow>
      \<exists>u. trace w' = trace w @ u \<and> list_all (setup_call (conn_collectMode c)) u"
    and declares: "P f \<Longrightarrow> f c w = Some (r, c', w') \<Longrightarrow>
      \<exists>eps cfgs. conn_topology c' = (conn_topology c)
          \<lparr>tp_Endpoints := tp_Endpoints (conn_topology c) @ eps\<rparr> \<and>
        conn_pendingJSConsumers c' = conn_pendingJSConsumers c @ cfgs"
    and subscribes: "P f \<Longrightarrow> f c w = Some (r, c', w') \<Longrightarrow>
      \<exists>cbs. core_callbacks w' = core_callbacks w @ cbs \<and>
        conn_subscriptions c' = conn_subscriptions c
          @ [length (core_callbacks w)..<length (core_callbacks w')]"
    and collects: "P f \<Longrightarrow> same_declarations c d \<Longrightarrow> \<not> conn_collectMode c \<Longrightarrow> conn_collectMode d \<Longrightarrow>
      f c w = Some (None, c', w') \<Longrightarrow>
      \<exists>d' v'. f d v = Some (None, d', v') \<and> same_declarations c' d'"
begin

text \<open>The contract holds for every selection of its setup functions.\<close>

lemma restrict: "(\<And>f. Q f \<Longrightarrow> P f) \<Longrightarrow> lawful_setups Q"
  by unfold_locales
    (metis session, metis consumers, metis application, metis calls, metis declares,
      metis subscribes, metis collects)

lemma run_session:
  "\<forall>f \<in> set fs. P (snd f) \<Longrightarrow> run_setups E fs c w = Some (r, c', w') \<Longrightarrow>
   same_session c c' \<and> js_callbacks w' = js_callbacks w \<and> same_app w w'"
proof (induction fs arbitrary: c w)
  case Nil
  then show ?case by simp
next
  case (Cons f fs)
  then obtain e c1 w1 where P: "P (snd f)" and f: "snd f c w = Some (e, c1, w1)"
    by (auto simp: bind_eq_Some_conv)
  from session [OF P f] consumers [OF P f] application [OF P f]
  have "same_session c c1" "js_callbacks w1 = js_callbacks w" "same_app w w1" by auto
  with Cons f show ?case
    by (auto split: option.splits intro: same_session_trans same_app_trans)
qed

lemma run_calls:
  "\<forall>f \<in> set fs. P (snd f) \<Longrightarrow> run_setups E fs c w = Some (r, c', w') \<Longrightarrow>
   \<exists>u. trace w' = trace w @ u \<and> list_all (setup_call (conn_collectMode c)) u"
proof (induction fs arbitrary: c w)
  case Nil
  then show ?case by simp
next
  case (Cons f fs)
  then obtain e c1 w1 where P: "P (snd f)" and f: "snd f c w = Some (e, c1, w1)"
    by (auto simp: bind_eq_Some_conv)
  from session [OF P f] calls [OF P f] obtain u where
    u: "conn_collectMode c1 = conn_collectMode c" "trace w1 = trace w @ u"
    "list_all (setup_call (conn_collectMode c)) u" by (auto simp: same_session_def)
  show ?case
  proof (cases e)
    case (Some err)
    with Cons.prems f u show ?thesis by auto
  next
    case None
    with Cons.prems f have "run_setups E fs c1 w1 = Some (r, c', w')" by simp
    from Cons.IH [OF _ this] Cons.prems(1) u show ?thesis by auto
  qed
qed

lemma run_subscribes:
  "\<forall>f \<in> set fs. P (snd f) \<Longrightarrow> run_setups E fs c w = Some (r, c', w') \<Longrightarrow>
   \<exists>cbs. core_callbacks w' = core_callbacks w @ cbs \<and>
     conn_subscriptions c' = conn_subscriptions c
       @ [length (core_callbacks w)..<length (core_callbacks w')]"
proof (induction fs arbitrary: c w)
  case Nil
  then show ?case by simp
next
  case (Cons f fs)
  then obtain e c1 w1 where P: "P (snd f)" and f: "snd f c w = Some (e, c1, w1)"
    by (auto simp: bind_eq_Some_conv)
  from subscribes [OF P f] obtain cbs where
    1: "core_callbacks w1 = core_callbacks w @ cbs"
    "conn_subscriptions c1 = conn_subscriptions c
       @ [length (core_callbacks w)..<length (core_callbacks w1)]" by auto
  show ?case
  proof (cases e)
    case (Some err)
    with Cons.prems f 1 show ?thesis by auto
  next
    case None
    with Cons.prems f have "run_setups E fs c1 w1 = Some (r, c', w')" by simp
    from Cons.IH [OF _ this] Cons.prems(1) obtain cbs' where
      2: "core_callbacks w' = core_callbacks w1 @ cbs'"
      "conn_subscriptions c' = conn_subscriptions c1
         @ [length (core_callbacks w1)..<length (core_callbacks w')]" by auto
    have "[length (core_callbacks w)..<length (core_callbacks w')]
        = [length (core_callbacks w)..<length (core_callbacks w1)]
          @ [length (core_callbacks w1)..<length (core_callbacks w')]"
      using upt_add_eq_append [of "length (core_callbacks w)" "length (core_callbacks w1)"
          "length cbs'"] 1(1) 2(1) by (simp add: add.assoc)
    with 1 2 show ?thesis by simp
  qed
qed

lemma run_collects:
  "\<forall>f \<in> set fs. P (snd f) \<Longrightarrow> same_declarations c d \<Longrightarrow> \<not> conn_collectMode c \<Longrightarrow>
   conn_collectMode d \<Longrightarrow> run_setups E fs c w = Some (None, c', w') \<Longrightarrow>
   \<exists>d' v'. collect_setups (map snd fs) d v = Some (None, d', v') \<and> same_declarations c' d'"
proof (induction fs arbitrary: c d w v)
  case Nil
  then show ?case by simp
next
  case (Cons f fs)
  from Cons.prems(5) obtain c1 w1 where f: "snd f c w = Some (None, c1, w1)"
    and fs: "run_setups E fs c1 w1 = Some (None, c', w')"
    by (auto simp: bind_eq_Some_conv split: option.splits)
  have P: "P (snd f)" using Cons.prems(1) by simp
  from collects [OF P Cons.prems(2-4) f] obtain d1 v1
    where d1: "snd f d v = Some (None, d1, v1)" "same_declarations c1 d1" by blast
  have "\<not> conn_collectMode c1" "conn_collectMode d1"
    using session [OF P f] session [OF P d1(1)] Cons.prems(3,4) by (auto simp: same_session_def)
  from Cons.IH [OF _ d1(2) this fs] Cons.prems(1) d1(1) show ?case by simp
qed

lemma collect_calls:
  "\<forall>f \<in> set fs. P f \<Longrightarrow> collect_setups fs c w = Some (r, c', w') \<Longrightarrow>
   \<exists>u. trace w' = trace w @ u \<and> list_all (setup_call (conn_collectMode c)) u"
proof (induction fs arbitrary: c w)
  case Nil
  then show ?case by simp
next
  case (Cons f fs)
  then obtain e c1 w1 where P: "P f" and f: "f c w = Some (e, c1, w1)"
    by (auto simp: bind_eq_Some_conv)
  from session [OF P f] calls [OF P f] obtain u where
    u: "conn_collectMode c1 = conn_collectMode c" "trace w1 = trace w @ u"
    "list_all (setup_call (conn_collectMode c)) u" by (auto simp: same_session_def)
  show ?case
  proof (cases e)
    case (Some err)
    with Cons.prems f u show ?thesis by auto
  next
    case None
    with Cons.prems f have "collect_setups fs c1 w1 = Some (r, c', w')" by simp
    from Cons.IH [OF _ this] Cons.prems(1) u show ?thesis by auto
  qed
qed

end

section \<open>The package's setup functions keep the contract\<close>

text \<open>What each kind of setup function returns, on every path.\<close>

lemma stream_consumer_result:
  assumes "stream_consumer E e t h stream k opts c w = Some (r, c', w')"
  shows "w' = w" "r \<noteq> None \<Longrightarrow> c' = c"
    "r = None \<Longrightarrow> \<exists>ep cfg. c' = addEndpoint ep
       (c\<lparr>conn_pendingJSConsumers := conn_pendingJSConsumers c @ [cfg]\<rparr>)"
  using assms by (auto simp: stream_consumer_def split: sum.splits)

lemma core_setup_result:
  assumes "core_setup E cb what t k c w = Some (r, c', w')"
  shows "\<exists>subs ep cbs u. core_callbacks w' = core_callbacks w @ cbs \<and> trace w' = trace w @ u \<and>
      list_all (setup_call (conn_collectMode c)) u \<and> set cbs \<subseteq> {(s, cb c) |s. True} \<and>
      subs = [length (core_callbacks w)..<length (core_callbacks w')] \<and>
      c' = (if r = None then addEndpoint ep else (\<lambda>c. c))
             (c\<lparr>conn_subscriptions := conn_subscriptions c @ subs\<rparr>)"
    "js_callbacks w' = js_callbacks w" "pubs w' = pubs w" "same_app w w'"
proof -
  note def = core_setup_def subscribe_def perform_def Let_def
  show "js_callbacks w' = js_callbacks w" "pubs w' = pubs w" "same_app w w'"
    using assms by (auto simp: def same_app_def split: if_splits option.splits)
  show "\<exists>subs ep cbs u. core_callbacks w' = core_callbacks w @ cbs \<and> trace w' = trace w @ u \<and>
      list_all (setup_call (conn_collectMode c)) u \<and> set cbs \<subseteq> {(s, cb c) |s. True} \<and>
      subs = [length (core_callbacks w)..<length (core_callbacks w')] \<and>
      c' = (if r = None then addEndpoint ep else (\<lambda>c. c))
             (c\<lparr>conn_subscriptions := conn_subscriptions c @ subs\<rparr>)"
    using assms by (auto simp: def split: if_splits option.splits)
qed

lemma StreamPublisher_result:
  assumes "StreamPublisher E stream pid c w = Some (r, c', w')"
  shows "core_callbacks w' = core_callbacks w" "js_callbacks w' = js_callbacks w"
    "\<exists>u. trace w' = trace w @ u \<and> list_all (setup_call (conn_collectMode c)) u"
    "r \<noteq> None \<Longrightarrow> c' = c"
    "r = None \<Longrightarrow> \<exists>ep name. c' = addEndpoint ep
       (c\<lparr>conn_pendingStreams := conn_pendingStreams c @ [name]\<rparr>)"
    "same_app w w'"
  using assms
  by (auto simp: StreamPublisher_def ensureStream_eq Let_def retention_warning_def same_app_def
      split: if_splits option.splits)

lemma ServicePublisher_result:
  assumes "ServicePublisher E target pid c w = Some (r, c', w')"
  shows "core_callbacks w' = core_callbacks w" "js_callbacks w' = js_callbacks w"
    "\<exists>u. trace w' = trace w @ u \<and> list_all (setup_call (conn_collectMode c)) u"
    "r = None" "\<exists>ep. c' = addEndpoint ep c" "same_app w w'"
  using assms by (auto simp: ServicePublisher_def Let_def same_app_def split: if_splits)

text \<open>The laws, for one setup function, as one predicate on what it was given and returned.\<close>

definition setup_effect ::
  "('x, 'app) connection \<Rightarrow> ('x, 'app) nworld \<Rightarrow> ('x, 'app) connection \<Rightarrow> ('x, 'app) nworld \<Rightarrow> bool"
where
  "setup_effect c w c' w' \<longleftrightarrow>
     same_session c c' \<and> js_callbacks w' = js_callbacks w \<and> same_app w w' \<and>
     (\<exists>u. trace w' = trace w @ u \<and> list_all (setup_call (conn_collectMode c)) u) \<and>
     (\<exists>eps cfgs. conn_topology c' = (conn_topology c)
          \<lparr>tp_Endpoints := tp_Endpoints (conn_topology c) @ eps\<rparr> \<and>
        conn_pendingJSConsumers c' = conn_pendingJSConsumers c @ cfgs) \<and>
     (\<exists>cbs. core_callbacks w' = core_callbacks w @ cbs \<and>
        conn_subscriptions c' = conn_subscriptions c
          @ [length (core_callbacks w)..<length (core_callbacks w')])"

text \<open>One more endpoint, and whatever a setup function does besides.\<close>

lemma setup_effect_endpoint:
  assumes "same_session c c0" and "conn_topology c0 = conn_topology c"
    and "conn_pendingJSConsumers c0 = conn_pendingJSConsumers c @ cfgs"
    and "core_callbacks w' = core_callbacks w @ cbs" and "js_callbacks w' = js_callbacks w"
    and "conn_subscriptions c0 = conn_subscriptions c
       @ [length (core_callbacks w)..<length (core_callbacks w')]"
    and "trace w' = trace w @ u" and "list_all (setup_call (conn_collectMode c)) u"
    and "same_app w w'"
  shows "setup_effect c w (addEndpoint ep c0) w'" "setup_effect c w c0 w'"
proof -
  have "conn_topology c0 = (conn_topology c)\<lparr>tp_Endpoints := tp_Endpoints (conn_topology c) @ []\<rparr>"
    by (simp add: assms(2))
  with assms show "setup_effect c w c0 w'"
    unfolding setup_effect_def by blast
  have "conn_topology (addEndpoint ep c0)
      = (conn_topology c)\<lparr>tp_Endpoints := tp_Endpoints (conn_topology c) @ [ep]\<rparr>"
    by (simp add: assms(2))
  moreover have "same_session c (addEndpoint ep c0)"
    using assms(1) by (simp add: same_session_def addEndpoint_def)
  ultimately show "setup_effect c w (addEndpoint ep c0) w'"
    unfolding setup_effect_def using assms by (auto simp del: addEndpoint_simps(12))
qed

lemma setup_effect_quiet:
  assumes "same_session c c0" and "conn_topology c0 = conn_topology c"
    and "conn_pendingJSConsumers c0 = conn_pendingJSConsumers c @ cfgs"
    and "conn_subscriptions c0 = conn_subscriptions c"
    and "core_callbacks w' = core_callbacks w" and "js_callbacks w' = js_callbacks w"
    and "\<exists>u. trace w' = trace w @ u \<and> list_all (setup_call (conn_collectMode c)) u"
    and "same_app w w'"
  shows "setup_effect c w (addEndpoint ep c0) w'" "setup_effect c w c0 w'"
proof -
  obtain u where "trace w' = trace w @ u" "list_all (setup_call (conn_collectMode c)) u"
    using assms(7) by blast
  then show "setup_effect c w (addEndpoint ep c0) w'" "setup_effect c w c0 w'"
    using setup_effect_endpoint [OF assms(1-3), where w = w and w' = w' and cbs = "[]" and u = u]
      assms(4-6,8) by simp_all
qed

lemma stream_consumer_effect:
  assumes "stream_consumer E e t h st k opts c w = Some (r, c', w')"
  shows "setup_effect c w c' w'"
proof (cases r)
  case None
  then obtain ep cfg where "c' = addEndpoint ep
     (c\<lparr>conn_pendingJSConsumers := conn_pendingJSConsumers c @ [cfg]\<rparr>)"
    using stream_consumer_result(3) [OF assms] by blast
  then show ?thesis
    by (simp only:) (rule setup_effect_quiet(1) [of _ _ "[cfg]"];
        simp add: stream_consumer_result(1) [OF assms] same_session_def)
next
  case (Some e)
  then show ?thesis
    by (intro setup_effect_quiet(2) [of _ _ "[]"]) (simp_all add: stream_consumer_result [OF assms])
qed

lemma core_setup_effect:
  assumes "core_setup E cb what t k c w = Some (r, c', w')"
  shows "setup_effect c w c' w'"
proof -
  note res = core_setup_result [OF assms]
  let ?c0 = "c\<lparr>conn_subscriptions := conn_subscriptions c
    @ [length (core_callbacks w)..<length (core_callbacks w')]\<rparr>"
  from res(1) obtain ep cbs u where 1: "core_callbacks w' = core_callbacks w @ cbs"
    "trace w' = trace w @ u" "list_all (setup_call (conn_collectMode c)) u"
    "c' = (if r = None then addEndpoint ep else (\<lambda>c. c)) ?c0"
    by blast
  then show ?thesis
    unfolding 1(4)
    using setup_effect_endpoint [where c = c and ?c0.0 = ?c0 and cfgs = "[]" and w' = w'
         and w = w and cbs = cbs and u = u] res(2,4) by (simp add: same_session_def)
qed

lemma StreamPublisher_effect:
  assumes "StreamPublisher E st pid c w = Some (r, c', w')"
  shows "setup_effect c w c' w'"
proof (cases r)
  case None
  then obtain ep name where "c' = addEndpoint ep
     (c\<lparr>conn_pendingStreams := conn_pendingStreams c @ [name]\<rparr>)"
    using StreamPublisher_result(5) [OF assms] by blast
  then show ?thesis
    by (simp only:) (rule setup_effect_quiet(1) [of _ _ "[]"];
        simp add: StreamPublisher_result [OF assms] same_session_def)
next
  case (Some e)
  then show ?thesis
    by (intro setup_effect_quiet(2) [of _ _ "[]"]) (simp_all add: StreamPublisher_result [OF assms])
qed

lemma pkg_setup_effect:
  assumes "pkg_setup E f" and "f c w = Some (r, c', w')"
  shows "setup_effect c w c' w'"
  using assms(1)
proof cases
  case config
  note frame = config_setup_frame [OF config assms(2)]
  show ?thesis
    by (rule setup_effect_quiet(2) [of _ _ "[]"]) (simp_all add: frame same_session_def)
next
  case (response t target k)
  with assms(2) obtain ep where "c' = addEndpoint ep c" "w' = w"
    by (auto simp: response_setup_def)
  then show ?thesis
    by (simp only:) (rule setup_effect_quiet(1) [of _ _ "[]"]; simp)
next
  case (service_publisher target pid)
  note res = ServicePublisher_result [OF assms(2) [unfolded service_publisher]]
  from res(5) obtain ep where "c' = addEndpoint ep c" by blast
  then show ?thesis
    by (simp only:) (rule setup_effect_quiet(1) [of _ _ "[]"]; simp add: res)
next
  case (stream opts e t h st k)
  with assms(2) show ?thesis by (simp only: stream_consumer_effect)
next
  case (core cb what t k)
  with assms(2) show ?thesis by (simp only: core_setup_effect)
next
  case (stream_publisher st pid)
  with assms(2) show ?thesis by (simp only: StreamPublisher_effect)
qed

lemma same_declarations_endpoint:
  "same_declarations c d \<Longrightarrow> same_declarations (addEndpoint ep c) (addEndpoint ep d)"
  by (simp add: same_declarations_def)

lemma core_setup_succeeds:
  assumes "core_setup E cb what t k c w = Some (None, c', w')"
  shows "\<exists>subs. c' = addEndpoint
    \<lparr>ep_Direction = DirectionConsume, ep_Pattern = PatternServiceRequest,
     ep_ExchangeName = conn_serviceName c, ep_ExchangeKind = ExchangeDirect,
     ep_QueueName = conn_serviceName c, ep_RoutingKey = k, ep_MessageType = t,
     ep_Ephemeral = False\<rparr> (c\<lparr>conn_subscriptions := subs\<rparr>)"
proof (cases "conn_collectMode c")
  case True
  with assms show ?thesis
    by (intro exI [of _ "conn_subscriptions c"]) (auto simp: core_setup_def)
next
  case False
  with assms show ?thesis
    by (auto simp: core_setup_def subscribe_def perform_def Let_def split: option.splits)
qed

lemma StreamPublisher_succeeds:
  assumes "StreamPublisher E stream pid c w = Some (None, c', w')"
  shows "c' = addEndpoint
    \<lparr>ep_Direction = DirectionPublish, ep_Pattern = stream_pattern stream,
     ep_ExchangeName = streamName E stream, ep_ExchangeKind = ExchangeTopic, ep_QueueName = '''',
     ep_RoutingKey = '''', ep_MessageType = '''', ep_Ephemeral = False\<rparr>
    (c\<lparr>conn_pendingStreams := conn_pendingStreams c @ [streamName E stream]\<rparr>)"
  using assms
  by (auto simp: StreamPublisher_def ensureStream_eq Let_def split: if_splits option.splits)

lemma pkg_setup_collects:
  assumes "pkg_setup E f" and "same_declarations c d" and "\<not> conn_collectMode c"
    and "conn_collectMode d" and "f c w = Some (None, c', w')"
  shows "\<exists>d' v'. f d v = Some (None, d', v') \<and> same_declarations c' d'"
  using assms(1)
proof cases
  case config
  obtain d' where d': "f d v = Some (None, d', v)"
    using config_setup_uniform [OF config assms(5)] by blast
  with config_setup_frame [OF config assms(5)] config_setup_frame [OF config d'] assms(2)
  show ?thesis by (auto simp: same_declarations_def)
next
  case (stream opts e t h st k)
  with assms(2,5) show ?thesis
    by (auto simp: stream_consumer_def same_declarations_def split: sum.splits)
next
  case (core cb what t k)
  have "\<exists>d' v'. f d v = Some (None, d', v')"
    using assms(4) by (simp add: core core_setup_def)
  then obtain d' v' where d': "f d v = Some (None, d', v')" by blast
  from core_setup_succeeds [OF assms(5) [unfolded core]] core_setup_succeeds [OF d' [unfolded core]]
    assms(2) d' show ?thesis
    by (auto simp: same_declarations_def)
next
  case (response t target k)
  with assms(2,5) show ?thesis
    by (auto simp: response_setup_def same_declarations_def)
next
  case (stream_publisher st pid)
  have "\<exists>d' v'. f d v = Some (None, d', v')"
    using assms(4) by (simp add: stream_publisher StreamPublisher_def Let_def)
  then obtain d' v' where d': "f d v = Some (None, d', v')" by blast
  from StreamPublisher_succeeds [OF assms(5) [unfolded stream_publisher]]
    StreamPublisher_succeeds [OF d' [unfolded stream_publisher]] assms(2) d' show ?thesis
    by (auto simp: same_declarations_def)
next
  case (service_publisher target pid)
  with assms(2,5) show ?thesis
    by (auto simp: ServicePublisher_def Let_def same_declarations_def)
qed

interpretation pkg: lawful_setups "pkg_setup E" for E :: "'x ext"
proof unfold_locales
  fix f :: "('x, 'app) Setup" and c w r c' w'
  assume "pkg_setup E f" "f c w = Some (r, c', w')"
  from pkg_setup_effect [OF this] show
    "same_session c c'" "js_callbacks w' = js_callbacks w" "same_app w w'"
    "\<exists>u. trace w' = trace w @ u \<and> list_all (setup_call (conn_collectMode c)) u"
    "\<exists>eps cfgs. conn_topology c' = (conn_topology c)
          \<lparr>tp_Endpoints := tp_Endpoints (conn_topology c) @ eps\<rparr> \<and>
        conn_pendingJSConsumers c' = conn_pendingJSConsumers c @ cfgs"
    "\<exists>cbs. core_callbacks w' = core_callbacks w @ cbs \<and>
        conn_subscriptions c' = conn_subscriptions c
          @ [length (core_callbacks w)..<length (core_callbacks w')]"
    by (simp_all add: setup_effect_def)
next
  fix f :: "('x, 'app) Setup" and c d w c' w' v
  assume "pkg_setup E f" "same_declarations c d" "\<not> conn_collectMode c" "conn_collectMode d"
    "f c w = Some (None, c', w')"
  then show "\<exists>d' v'. f d v = Some (None, d', v') \<and> same_declarations c' d'"
    by (rule pkg_setup_collects)
qed

section \<open>Span names\<close>

text \<open>
  A \<open>nil\<close> span name function makes every handler call panic. Setup functions other than
  \<open>WithSpanNameFn(nil)\<close> keep one once there is one, and hand it to the consumers they start.
\<close>

fun cb_consumer :: "('x, 'app) core_callback \<Rightarrow> ('x, 'app) jsConsumer" where
  "cb_consumer (CoreCallback consumer k) = consumer"
| "cb_consumer (RequestCallback consumer k name h) = consumer"

definition spans_named :: "('x, 'app) connection \<Rightarrow> ('x, 'app) nworld \<Rightarrow> bool" where
  "spans_named c w \<longleftrightarrow> conn_spanNameFn c \<noteq> None \<and>
     (\<forall>(s, cb) \<in> set (core_callbacks w). jsc_spanNameFn (cb_consumer cb) \<noteq> None) \<and>
     (\<forall>(s, cfg, consumer) \<in> set (js_callbacks w). jsc_spanNameFn consumer \<noteq> None)"

locale safe_setups = lawful_setups P for P :: "('x, 'app) Setup \<Rightarrow> bool" +
  assumes spans: "P f \<Longrightarrow> f c w = Some (r, c', w') \<Longrightarrow> spans_named c w \<Longrightarrow> spans_named c' w'"
begin

lemma run_spans:
  "\<forall>f \<in> set fs. P (snd f) \<Longrightarrow> run_setups E fs c w = Some (r, c', w') \<Longrightarrow> spans_named c w \<Longrightarrow>
   spans_named c' w'"
proof (induction fs arbitrary: c w)
  case Nil
  then show ?case by simp
next
  case (Cons f fs)
  then obtain e c1 w1 where "P (snd f)" "snd f c w = Some (e, c1, w1)"
    by (auto simp: bind_eq_Some_conv)
  with Cons spans [OF this] show ?case
    by (cases e) auto
qed

end

definition safe_setup :: "'x ext \<Rightarrow> ('x, 'app) Setup \<Rightarrow> bool" where
  "safe_setup E f \<longleftrightarrow> pkg_setup E f \<and> f \<noteq> WithSpanNameFn None"

lemma config_setup_span:
  assumes "config_setup E f" and "f c w = Some (r, c', w')" and "f \<noteq> WithSpanNameFn None"
    and "conn_spanNameFn c \<noteq> None"
  shows "conn_spanNameFn c' \<noteq> None"
  using assms by cases (auto simp: config_setup_defs bind_eq_Some_conv split: if_splits)

lemma core_setup_span:
  assumes "core_setup E cb what t k c w = Some (r, c', w')"
  shows "conn_spanNameFn c' = conn_spanNameFn c"
  using assms
  by (auto simp: core_setup_def subscribe_def perform_def Let_def addEndpoint_def
      split: if_splits option.splits)

lemma core_cb_span: "core_cb E cb \<Longrightarrow> jsc_spanNameFn (cb_consumer (cb c)) = conn_spanNameFn c"
  by (cases rule: core_cb.cases, assumption) (auto simp: core_consumer_def)

lemma safe_setup_spans:
  assumes "safe_setup E f" and "f c w = Some (r, c', w')" and "spans_named c w"
  shows "spans_named c' w'"
proof -
  from assms(1) have "pkg_setup E f" and ne: "f \<noteq> WithSpanNameFn None"
    by (simp_all add: safe_setup_def)
  then show ?thesis
  proof cases
    case config
    from config_setup_span [OF config assms(2) ne] config_setup_frame(1) [OF config assms(2)]
    show ?thesis using assms(3) by (simp add: spans_named_def)
  next
    case (stream opts e t h st k)
    with assms(2,3) show ?thesis
      by (auto simp: spans_named_def stream_consumer_def addEndpoint_def split: sum.splits)
  next
    case (core cb what t k)
    note run = assms(2) [unfolded core]
    from core_setup_result(1) [OF run] obtain cbs where cbs:
      "core_callbacks w' = core_callbacks w @ cbs" "set cbs \<subseteq> {(s, cb c) |s. True}" by blast
    have new: "jsc_spanNameFn (cb_consumer x) \<noteq> None" if "(s, x) \<in> set cbs" for s x
    proof -
      have "x = cb c" using cbs(2) that by auto
      then show ?thesis
        using core_cb_span [OF core(2)] assms(3) by (simp add: spans_named_def)
    qed
    show ?thesis
      using assms(3) new unfolding spans_named_def cbs(1) core_setup_span [OF run]
        core_setup_result(2) [OF run] by auto
  next
    case (response t target k)
    with assms(2,3) show ?thesis
      by (auto simp: spans_named_def response_setup_def addEndpoint_def)
  next
    case (stream_publisher st pid)
    with assms(2,3) show ?thesis
      by (auto simp: spans_named_def StreamPublisher_def ensureStream_eq Let_def addEndpoint_def
          split: if_splits option.splits)
  next
    case (service_publisher target pid)
    with assms(2,3) show ?thesis
      by (auto simp: spans_named_def ServicePublisher_def Let_def addEndpoint_def split: if_splits)
  qed
qed

interpretation safe: safe_setups "safe_setup E" for E :: "'x ext"
proof (intro safe_setups.intro safe_setups_axioms.intro)
  show "lawful_setups (safe_setup E :: ('x, 'app) Setup \<Rightarrow> bool)"
    by (rule pkg.restrict [where E = E]) (simp add: safe_setup_def)
qed (rule safe_setup_spans)

section \<open>Start, path by path\<close>

definition with_span_name :: "('x, 'app) connection \<Rightarrow> ('x, 'app) connection" where
  "with_span_name c =
     (if conn_spanNameFn c = None then c\<lparr>conn_spanNameFn := Some defaultSpanNameFn\<rparr> else c)"

lemma with_span_name_simps [simp]:
  "conn_started (with_span_name c) = conn_started c"
  "conn_collectMode (with_span_name c) = conn_collectMode c"
  "conn_serviceName (with_span_name c) = conn_serviceName c"
  "conn_natsURL (with_span_name c) = conn_natsURL c"
  "conn_natsOpts (with_span_name c) = conn_natsOpts c"
  "conn_topology (with_span_name c) = conn_topology c"
  "conn_consumers (with_span_name c) = conn_consumers c"
  "conn_subscriptions (with_span_name c) = conn_subscriptions c"
  "conn_pendingJSConsumers (with_span_name c) = conn_pendingJSConsumers c"
  "conn_nc (with_span_name c) = conn_nc c" "conn_js (with_span_name c) = conn_js c"
  "conn_spanNameFn (with_span_name c) \<noteq> None"
  by (simp_all add: with_span_name_def)

abbreviation connect_call :: "('x, 'app) connection \<Rightarrow> 'x call" where
  "connect_call c \<equiv> NatsConnect (conn_natsURL c) (conn_natsOpts c)"

text \<open>The connection and the world in which the setup functions run.\<close>

definition connected :: "('x, 'app) connection \<Rightarrow> ('x, 'app) connection" where
  "connected c = (with_span_name c)\<lparr>conn_nc := True, conn_js := True\<rparr>"

definition after_connect :: "('x, 'app) connection \<Rightarrow> ('x, 'app) nworld \<Rightarrow> ('x, 'app) nworld" where
  "after_connect c w =
     log_at LevelInfo ''connected to NATS'' (emit JetStreamNew (emit (connect_call c) w))"

lemma Start_live:
  assumes "\<not> conn_started c" and "\<not> conn_collectMode c" and "Start E fs c w = Some (r, c', w')"
  obtains
    (Connect) e where "answer E (trace w) (connect_call c) = Some e" "r \<noteq> None"
      "c' = with_span_name c" "w' = emit (connect_call c) w"
  | (JetStream) "answer E (trace w) (connect_call c) = None" "r \<noteq> None"
      "c' = (with_span_name c)\<lparr>conn_nc := True\<rparr>"
      "w' = emit NcClose (emit JetStreamNew (emit (connect_call c) w))"
  | (Setup) w1 where "answer E (trace w) (connect_call c) = None" "r \<noteq> None"
      "run_setups E fs (connected c) (after_connect c w) = Some (r, c', w1)" "w' = emit NcClose w1"
  | (Pending) c1 w1 w2 where "answer E (trace w) (connect_call c) = None" "r \<noteq> None"
      "run_setups E fs (connected c) (after_connect c w) = Some (None, c1, w1)"
      "startPendingJSConsumers E c1 w1 = Some (r, c', w2)" "w' = emit NcClose w2"
  | (Started) c1 w1 c2 w2 where "answer E (trace w) (connect_call c) = None" "r = None"
      "run_setups E fs (connected c) (after_connect c w) = Some (None, c1, w1)"
      "startPendingJSConsumers E c1 w1 = Some (None, c2, w2)"
      "c' = c2\<lparr>conn_started := True\<rparr>" "w' = log_at LevelInfo ''connection started'' w2"
proof -
  note def = Start_def Let_def with_span_name_def [symmetric] perform_def
  let ?w1 = "emit (connect_call c) w"
  show thesis
  proof (cases "answer E (trace w) (connect_call c)")
    case (Some e)
    with assms show thesis
      by (intro Connect [of e]) (auto simp: def)
  next
    case con: None
    show thesis
    proof (cases "answer E (trace ?w1) JetStreamNew")
      case (Some e)
      with con assms show thesis
        by (intro JetStream) (auto simp: def)
    next
      case None
      with con assms obtain r1 c1 w1
        where run: "run_setups E fs (connected c) (after_connect c w) = Some (r1, c1, w1)"
          and rest: "(case r1 of Some err \<Rightarrow> Some (Some err, c1, emit NcClose w1)
             | None \<Rightarrow> do { (err, c, w) \<leftarrow> startPendingJSConsumers E c1 w1;
                 (case err of Some err \<Rightarrow> Some (Some err, c, emit NcClose w)
                  | None \<Rightarrow> Some (None, c\<lparr>conn_started := True\<rparr>,
                      log_at LevelInfo ''connection started'' w)) }) = Some (r, c', w')"
        by (auto simp: def bind_eq_Some_conv connected_def after_connect_def)
      show thesis
      proof (cases r1)
        case (Some e)
        with con run rest show thesis by (intro Setup [of w1]) auto
      next
        case None
        with rest obtain r2 c2 w2 where "startPendingJSConsumers E c1 w1 = Some (r2, c2, w2)"
          by (auto simp: bind_eq_Some_conv)
        with con run rest None show thesis
          by (cases r2) (auto intro: Pending Started)
      qed
    qed
  qed
qed

text \<open>The calls that starting the pending consumers makes.\<close>

fun pending_call :: "'x call \<Rightarrow> bool" where
  "pending_call (Log l s) \<longleftrightarrow> True"
| "pending_call (CreateOrUpdateStream cfg) \<longleftrightarrow> True"
| "pending_call (CreateOrUpdateConsumer s cfg) \<longleftrightarrow> True"
| "pending_call (Consume s cfg) \<longleftrightarrow> True"
| "pending_call _ \<longleftrightarrow> False"

lemma start_group_calls:
  assumes "start_group E g c w = Some (r, c', w')"
  shows "\<exists>u. trace w' = trace w @ u \<and> list_all pending_call u"
  using assms
  by (auto simp: start_group_def ensureStream_eq Let_def perform_def retention_warning_def
      split: list.splits option.splits if_splits)

lemma start_list_calls:
  assumes "start_list E gs c w = Some (r, c', w')"
  shows "\<exists>u. trace w' = trace w @ u \<and> list_all pending_call u"
  using assms
proof (induction gs arbitrary: c w)
  case Nil
  then show ?case by simp
next
  case (Cons g gs)
  then obtain r1 c1 w1 where g: "start_group E g c w = Some (r1, c1, w1)"
    by (auto simp: bind_eq_Some_conv)
  from start_group_calls [OF g] obtain u where u: "trace w1 = trace w @ u" "list_all pending_call u"
    by blast
  show ?case
  proof (cases r1)
    case (Some e)
    with Cons.prems g u show ?thesis by auto
  next
    case None
    with Cons.prems g have "start_list E gs c1 w1 = Some (r, c', w')" by simp
    from Cons.IH [OF this] u show ?thesis by auto
  qed
qed

lemma start_group_app: "start_group E g c w = Some (r, c', w') \<Longrightarrow> same_app w w'"
  by (auto simp: start_group_def ensureStream_eq Let_def perform_def same_app_def
      split: list.splits option.splits if_splits)

lemma start_list_core:
  "start_list E gs c w = Some (r, c', w') \<Longrightarrow> core_callbacks w' = core_callbacks w \<and> same_app w w'"
proof (induction gs arbitrary: c w)
  case Nil
  then show ?case by simp
next
  case (Cons g gs)
  then obtain r1 c1 w1 where g: "start_group E g c w = Some (r1, c1, w1)"
    by (auto simp: bind_eq_Some_conv)
  with Cons start_group_result(1) [OF g] start_group_app [OF g] show ?case
    by (cases r1) (auto intro: same_app_trans)
qed

text \<open>What starting the pending consumers leaves.\<close>

lemma start_list_pubs: "start_list E gs c w = Some (r, c', w') \<Longrightarrow> pubs w' = pubs w"
proof (induction gs arbitrary: c w)
  case Nil
  then show ?case by simp
next
  case (Cons g gs)
  then obtain r1 c1 w1 where g: "start_group E g c w = Some (r1, c1, w1)"
    by (auto simp: bind_eq_Some_conv)
  with Cons start_group_result(2) [OF g] show ?case by (cases r1) auto
qed

lemma startPending_pubs:
  "startPendingJSConsumers E c w = Some (r, c', w') \<Longrightarrow> pubs w' = pubs w"
  by (auto simp: startPendingJSConsumers_eq bind_eq_Some_conv dest: start_list_pubs)

lemma startPending_result:
  assumes "startPendingJSConsumers E c w = Some (r, c', w')"
  obtains n u where "n \<le> length (groups_of (conn_pendingJSConsumers c))"
    "c' = c\<lparr>conn_consumers := conn_consumers c
        @ map (\<lambda>i. \<lparr>jh_ctx = Some (length (js_callbacks w) + i)\<rparr>) [0..<n],
       conn_pendingJSConsumers := (if r = None then [] else conn_pendingJSConsumers c)\<rparr>"
    "js_callbacks w' = js_callbacks w
       @ map (group_callback E c) (take n (groups_of (conn_pendingJSConsumers c)))"
    "r = None \<longleftrightarrow> n = length (groups_of (conn_pendingJSConsumers c))"
    "core_callbacks w' = core_callbacks w" "same_app w w'"
    "trace w' = trace w @ u" "list_all pending_call u"
proof -
  obtain c1 where run: "start_list E (groups_of (conn_pendingJSConsumers c)) c w = Some (r, c1, w')"
    and c': "c' = (if r = None then c1\<lparr>conn_pendingJSConsumers := []\<rparr> else c1)"
    using assms by (auto simp: startPendingJSConsumers_eq bind_eq_Some_conv)
  from start_list_result [OF run] obtain n where n:
    "n \<le> length (groups_of (conn_pendingJSConsumers c))"
    "r = None \<longleftrightarrow> n = length (groups_of (conn_pendingJSConsumers c))"
    "c1 = c\<lparr>conn_consumers := conn_consumers c
        @ map (\<lambda>i. \<lparr>jh_ctx = Some (length (js_callbacks w) + i)\<rparr>) [0..<n]\<rparr>"
    "js_callbacks w' = js_callbacks w
       @ map (group_callback E c) (take n (groups_of (conn_pendingJSConsumers c)))"
    by blast
  from start_list_calls [OF run] obtain u where u: "trace w' = trace w @ u" "list_all pending_call u"
    by blast
  have "c' = c\<lparr>conn_consumers := conn_consumers c
        @ map (\<lambda>i. \<lparr>jh_ctx = Some (length (js_callbacks w) + i)\<rparr>) [0..<n],
       conn_pendingJSConsumers := (if r = None then [] else conn_pendingJSConsumers c)\<rparr>"
    unfolding c' n(3) by simp
  with n u start_list_core [OF run] show thesis by (intro that) simp_all
qed

lemma not_in_calls:
  "list_all (setup_call b) u \<Longrightarrow> NcClose \<notin> set u"
  "list_all pending_call u \<Longrightarrow> NcClose \<notin> set u"
  by (auto simp: list_all_iff)

section \<open>Properties of starting\<close>

text \<open>
  C26: A connection starts at most once. When \<open>Start\<close> has succeeded, every later \<open>Start\<close>, with any
  setup functions and in any state of the world, returns \<open>ErrAlreadyStarted\<close> and has no effect: no
  setup function runs and no call is made.
\<close>

theorem Start_at_most_once:
  assumes "Start E fs c w = Some (None, c', w')"
  shows "conn_started c' \<and> Start E gs c' v = Some (Some (Known ErrAlreadyStarted), c', v)"
proof -
  have "conn_started c'"
    using assms by (auto simp: Start_def Let_def perform_def bind_eq_Some_conv
        split: if_splits option.splits)
  then show ?thesis by (simp add: Start_def)
qed

text \<open>
  C13: A failed \<open>Start\<close> leaves nothing open. If connecting fails, that one call is all that happened.
  If anything fails after that, the last call \<open>Start\<close> makes closes the NATS connection, and it is
  closed once. The connection does not count as started, so that \<open>Close\<close> does nothing and
  \<open>Start\<close> may be called again.
\<close>

theorem Start_failure_closes:
  assumes "\<not> conn_started c" and "\<not> conn_collectMode c"
    and "\<forall>f \<in> set fs. pkg_setup E (snd f)"
    and "Start E fs c w = Some (Some e, c', w')"
  shows "\<not> conn_started c' \<and> Close E c' v = (None, v) \<and>
    (if answer E (trace w) (NatsConnect (conn_natsURL c) (conn_natsOpts c)) \<noteq> None
     then trace w' = trace w @ [NatsConnect (conn_natsURL c) (conn_natsOpts c)]
     else \<exists>u. trace w' = trace w @ NatsConnect (conn_natsURL c) (conn_natsOpts c) # u @ [NcClose] \<and>
            NcClose \<notin> set u)"
proof -
  have Close: "Close E c' v = (None, v)" if "\<not> conn_started c'"
    using that by (simp add: Close_def)
  from assms(1,2,4) show ?thesis
  proof (cases rule: Start_live)
    case (Setup w1)
    from pkg.run_session [OF assms(3) Setup(3)] pkg.run_calls [OF assms(3) Setup(3)] obtain u
      where "same_session (connected c) c'" "trace w1 = trace (after_connect c w) @ u"
        "list_all (setup_call (conn_collectMode (connected c))) u" by blast
    with Setup Close assms(1) show ?thesis
      by (auto simp: same_session_def connected_def after_connect_def dest: not_in_calls)
  next
    case (Pending c1 w1 w2)
    from pkg.run_session [OF assms(3) Pending(3)] pkg.run_calls [OF assms(3) Pending(3)] obtain u
      where 1: "same_session (connected c) c1" "trace w1 = trace (after_connect c w) @ u"
        "list_all (setup_call (conn_collectMode (connected c))) u" by blast
    from startPending_result [OF Pending(4)] obtain n u' where
      "c' = c1\<lparr>conn_consumers := conn_consumers c1
        @ map (\<lambda>i. \<lparr>jh_ctx = Some (length (js_callbacks w1) + i)\<rparr>) [0..<n],
       conn_pendingJSConsumers := (if Some e = None then [] else conn_pendingJSConsumers c1)\<rparr>"
      "trace w2 = trace w1 @ u'" "list_all pending_call u'" by blast
    with 1 Pending Close assms(1) show ?thesis
      by (auto simp: same_session_def connected_def after_connect_def dest: not_in_calls)
  qed (use Close assms(1) in auto)
qed

text \<open>An application: a publisher, a typed event consumer and a request handler.\<close>

definition demo_setups :: "(unit, nat) named_setup list" where
  "demo_setups =
     [(''timeout'', WithRequestTimeout second),
      (''publisher'', EventStreamPublisher demo_ext 0),
      (''consumer'', EventStreamConsumer demo_ext demo_type ''Order.Created''
         (\<lambda>_ _ s. Some (None, s + 1)) []),
      (''requests'', RequestResponseHandler demo_ext demo_type (\<lambda>r. Inr r) ''Order.Get''
         (\<lambda>_ _ s. Some (Inr ''{}'', s)))]"

abbreviation demo_conn :: "(unit, nat) connection" where
  "demo_conn \<equiv> newConnection ''svc'' ''nats://localhost'' []"

lemma demo_setups_pkg: "\<forall>f \<in> set demo_setups. pkg_setup demo_ext (snd f)"
  by (simp add: demo_setups_def pkg_setup_intros config_setup.intros pkg_setup.config)

lemma demo_setups_safe: "\<forall>f \<in> set demo_setups. safe_setup demo_ext (snd f)"
proof -
  have "f \<noteq> (WithSpanNameFn None :: (unit, nat) Setup)" if "f \<in> set (map snd demo_setups)" for f
  proof -
    have "conn_spanNameFn (fst (snd (the (f c demo_nworld)))) = conn_spanNameFn c"
      if "c = demo_conn\<lparr>conn_spanNameFn := Some defaultSpanNameFn, conn_js := True\<rparr>" for c
      using that \<open>f \<in> set (map snd demo_setups)\<close>
      by (auto simp: demo_setups_def WithRequestTimeout_def second_def EventStreamPublisher_def
          EventStreamConsumer_def StreamConsumer_eq StreamPublisher_def ensureStream_eq Let_def
          RequestResponseHandler_eq core_setup_def subscribe_def perform_def stream_consumer_def
          newConsumerConfig_def demo_ext_def newConnection_def zero_connection_def addEndpoint_def)
    moreover have "conn_spanNameFn (fst (snd (the (WithSpanNameFn None c demo_nworld)))) = None"
      for c :: "(unit, nat) connection"
      by (simp add: WithSpanNameFn_def)
    ultimately show ?thesis
      by (metis (no_types, lifting) connection.select_convs(14) connection.surjective
          connection.update_convs(5,14) option.distinct(1))
  qed
  with demo_setups_pkg show ?thesis by (auto simp: safe_setup_def)
qed

lemmas demo_run_defs =
  demo_setups_def WithRequestTimeout_def second_def EventStreamPublisher_def
  EventStreamConsumer_def StreamConsumer_eq StreamPublisher_def ensureStream_eq
  RequestResponseHandler_eq core_setup_def subscribe_def perform_def stream_consumer_def
  newConsumerConfig_def newConnection_def zero_connection_def addEndpoint_def
  startPendingJSConsumers_eq groups_of_def consumerGroupKey_def start_group_def Start_def Let_def

lemma demo_start: "\<exists>c' w'. Start demo_ext demo_setups demo_conn demo_nworld = Some (None, c', w')"
  by (simp add: demo_run_defs demo_ext_def)

text \<open>A broker that accepts everything but subscriptions.\<close>

definition refusing_ext :: "unit ext" where
  "refusing_ext = demo_ext\<lparr>answer := (\<lambda>_ x. case x of NcSubscribe _ \<Rightarrow> Some (Plain ''refused'') | _ \<Rightarrow> None)\<rparr>"

definition refused_setups :: "(unit, nat) named_setup list" where
  "refused_setups = [(''requests'', RequestResponseHandler refusing_ext demo_type (\<lambda>r. Inr r)
     ''Order.Get'' (\<lambda>_ _ s. Some (Inr ''{}'', s)))]"

lemma refused_start:
  "\<exists>e c' w'. Start refusing_ext refused_setups demo_conn demo_nworld = Some (Some e, c', w')"
  by (simp add: refused_setups_def demo_run_defs refusing_ext_def demo_ext_def)

theorem Start_at_most_once_witness:
  "\<exists>c' w'. Start demo_ext demo_setups demo_conn demo_nworld = Some (None, c', w') \<and>
     Start demo_ext [] c' w' = Some (Some (Known ErrAlreadyStarted), c', w')"
proof -
  obtain c' w' where "Start demo_ext demo_setups demo_conn demo_nworld = Some (None, c', w')"
    using demo_start by blast
  with Start_at_most_once [OF this] show ?thesis by blast
qed

theorem Start_failure_closes_witness:
  "\<exists>e c' w' u. Start refusing_ext refused_setups demo_conn demo_nworld = Some (Some e, c', w') \<and>
     trace w' = NatsConnect ''nats://localhost'' [] # u @ [NcClose] \<and> NcClose \<notin> set u"
proof -
  obtain e c' w' where run: "Start refusing_ext refused_setups demo_conn demo_nworld = Some (Some e, c', w')"
    using refused_start by blast
  have "\<not> conn_started demo_conn" "\<not> conn_collectMode demo_conn"
    by (simp_all add: newConnection_def zero_connection_def)
  moreover have "\<forall>f \<in> set refused_setups. pkg_setup refusing_ext (snd f)"
    by (simp add: refused_setups_def pkg_setup_intros)
  ultimately show ?thesis
    using Start_failure_closes [OF _ _ _ run] run
    by (auto simp: newConnection_def zero_connection_def refusing_ext_def demo_nworld_def)
qed

section \<open>Properties of collecting\<close>

text \<open>
  C3: \<open>CollectTopology\<close> tells the truth. If a connection for a service starts with some of the
  package's setup functions, then collecting with the same setup functions, in any state of the
  world, succeeds and returns exactly the topology of the started connection.
\<close>

theorem CollectTopology_matches:
  assumes "\<forall>f \<in> set fs. pkg_setup E (snd f)"
    and "Start E fs (newConnection service url opts) w = Some (None, c', w')"
  shows "\<exists>v'. CollectTopology service (map snd fs) v = Some (Inr (Topology c'), v')"
proof -
  let ?c = "newConnection service url opts"
  let ?d = "zero_connection\<lparr>conn_serviceName := service, conn_logger := Some [],
     conn_topology := \<lparr>tp_Transport = TransportNATS, tp_ServiceName = service, tp_Endpoints = []\<rparr>,
     conn_collectMode := True\<rparr>"
  have "\<not> conn_started ?c" "\<not> conn_collectMode ?c"
    by (simp_all add: newConnection_def zero_connection_def)
  from this assms(2) show ?thesis
  proof (cases rule: Start_live)
    case (Started c1 w1 c2 w2)
    have "same_declarations (connected ?c) ?d" "\<not> conn_collectMode (connected ?c)"
      "conn_collectMode ?d"
      by (simp_all add: same_declarations_def connected_def newConnection_def zero_connection_def
          with_span_name_def)
    from pkg.run_collects [OF assms(1) this Started(3), of v] obtain d' v' where
      "collect_setups (map snd fs) ?d v = Some (None, d', v')" "same_declarations c1 d'" by blast
    moreover have "conn_topology c2 = conn_topology c1"
      by (rule startPending_result [OF Started(4)]) simp
    ultimately show ?thesis
      using Started(5) by (simp add: CollectTopology_def Topology_def same_declarations_def Let_def)
  qed simp_all
qed

theorem CollectTopology_matches_witness:
  "\<exists>c' w' v'. Start demo_ext demo_setups demo_conn demo_nworld = Some (None, c', w') \<and>
     CollectTopology ''svc'' (map snd demo_setups) demo_nworld = Some (Inr (Topology c'), v')"
proof -
  obtain c' w' where "Start demo_ext demo_setups demo_conn demo_nworld = Some (None, c', w')"
    using demo_start by blast
  with CollectTopology_matches [OF demo_setups_pkg this, of demo_nworld] show ?thesis by blast
qed

text \<open>
  C28: Collecting never talks to NATS. Whatever setup functions of the package it is given and
  whether they succeed or not, \<open>CollectTopology\<close> makes no call other than writing log records.
\<close>

theorem CollectTopology_silent:
  assumes "\<forall>f \<in> set fs. pkg_setup E f"
    and "CollectTopology service fs w = Some (r, w')"
  shows "\<exists>u. trace w' = trace w @ u \<and> list_all (\<lambda>x. \<exists>l s. x = Log l s) u"
proof -
  let ?d = "zero_connection\<lparr>conn_serviceName := service, conn_logger := Some [],
     conn_topology := \<lparr>tp_Transport = TransportNATS, tp_ServiceName = service, tp_Endpoints = []\<rparr>,
     conn_collectMode := True\<rparr>"
  obtain e d' where "collect_setups fs ?d w = Some (e, d', w')"
    using assms(2) by (auto simp: CollectTopology_def Let_def bind_eq_Some_conv)
  from pkg.collect_calls [OF assms(1) this] obtain u
    where "trace w' = trace w @ u" "list_all (setup_call True) u" by auto
  moreover have "\<exists>l s. x = Log l s" if "setup_call True x" for x :: "'x call"
    using that by (cases x) auto
  ultimately show ?thesis by (auto simp: list_all_iff)
qed

theorem CollectTopology_silent_witness:
  "\<exists>r w' u. CollectTopology ''svc'' (map snd demo_setups) demo_nworld = Some (r, w') \<and>
     trace w' = u \<and> list_all (\<lambda>x. \<exists>l s. x = Log l s) u"
proof -
  have "CollectTopology ''svc'' (map snd demo_setups) demo_nworld \<noteq> None"
    by (simp add: CollectTopology_def demo_run_defs demo_ext_def)
  then obtain r w' where "CollectTopology ''svc'' (map snd demo_setups) demo_nworld = Some (r, w')"
    by auto
  with CollectTopology_silent [OF _ this, of demo_ext] demo_setups_pkg show ?thesis
    by (auto simp: demo_nworld_def)
qed

end
