(* ===== verification/Session.thy ===== *)
theory Session
  imports Lifecycle
begin

text \<open>
  The connection as a labelled state machine. The application makes a connection, starts it, collects
  topologies, publishes, closes it and works on its own state and channels; NATS delivers messages to
  the callbacks that were registered. A step is one such operation, executed as a whole, and its label
  says what was asked for; the interleavings of operations are the sequences of steps. The invariant of
  the reachable states is proved step by step.
\<close>

section \<open>Steps\<close>

type_synonym ('x, 'app) session = "('x, 'app) connection \<times> ('x, 'app) nworld"

text \<open>The world before anything happened.\<close>

definition fresh_world :: "('x, 'app) nworld \<Rightarrow> bool" where
  "fresh_world w \<longleftrightarrow>
     trace w = [] \<and> pubs w = (\<lambda>_. NewPublisher) \<and> js_callbacks w = [] \<and> core_callbacks w = [] \<and>
     channels_ok w"

text \<open>The application reads channels and changes its state, and closes no channel.\<close>

definition app_change :: "('x, 'app) nworld \<Rightarrow> ('x, 'app) nworld \<Rightarrow> bool" where
  "app_change w w' \<longleftrightarrow>
     (\<exists>a n e. w' = w\<lparr>app := a, nchans := n, echans := e\<rparr>) \<and> channels_ok w' \<and>
     (\<forall>i. ch_closed (nchans w' i) = ch_closed (nchans w i)) \<and>
     (\<forall>i. ch_closed (echans w' i) = ch_closed (echans w i))"

text \<open>
  What a step is asked to do, in terms the environment knows: which message is delivered and which
  settlement the handler's result calls for; where a request wants its answer, and whether it has to
  be answered; the subject and the data of the message to be published, if it may be published at all.
\<close>

datatype session_event =
    StartCalled
  | TopologyCollected string
  | MessageDelivered nat settlement
  | RequestDelivered string bool
  | PublishCalled "(string \<times> string) option"
  | OtherCall

text \<open>The result of the handler that a message is given to, if there is a handler for it.\<close>

definition handler_result ::
  "'x ext \<Rightarrow> ('x, 'app) jsConsumer \<Rightarrow> js_msg \<Rightarrow> ('x, 'app) nworld \<Rightarrow> go_error option option" where
  "handler_result E c msg w =
     (let k = routing_key_of_subject (jm_Subject msg);
          v = eventReceived (jsc_name c) k w;
          info = js_delivery_info E c msg k (map_rank E (trace v) ''fromNATSHeaders'')
      in do {
        h \<leftarrow> rkh_get E (map_rank E (trace v) ''get'') (jsc_handlers c) k;
        (r, _) \<leftarrow> invoke_handler E c info (jm_Headers msg) (jm_Data msg) h
          (if spec_ValidateCEHeaders E (di_Headers info) \<noteq> []
           then log_at LevelWarn ''incoming message has invalid CloudEvents headers'' v else v);
        Some r
      })"

definition verdict ::
  "'x ext \<Rightarrow> ('x, 'app) jsConsumer \<Rightarrow> js_msg \<Rightarrow> ('x, 'app) nworld \<Rightarrow> settlement" where
  "verdict E c msg w =
     (case handler_result E c msg w of Some result \<Rightarrow> decide result | None \<Rightarrow> Terminated)"

fun must_answer :: "('x, 'app) core_callback \<Rightarrow> bool" where
  "must_answer (CoreCallback consumer k) \<longleftrightarrow> False"
| "must_answer (RequestCallback consumer k name h) \<longleftrightarrow> True"

definition publish_intent ::
  "'x ext \<Rightarrow> 'x Publisher \<Rightarrow> string \<Rightarrow> Header list \<Rightarrow> (go_error + string) \<Rightarrow> (string \<times> string) option"
where
  "publish_intent E p k headers marshalled =
     (case marshalled of
        Inl err \<Rightarrow> None
      | Inr bytes \<Rightarrow>
          if \<forall>h \<in> set headers. validateKey h = None then Some (publish_subject E p k, bytes) else None)"

definition raw_intent ::
  "'x ext \<Rightarrow> 'x Publisher \<Rightarrow> string \<Rightarrow> string \<Rightarrow> (string \<times> string) option" where
  "raw_intent E p k payload =
     (if p_publishFn p = None then None else Some (publish_subject E p k, payload))"

inductive step ::
  "'x ext \<Rightarrow> ('x, 'app) session \<Rightarrow> session_event \<Rightarrow> ('x, 'app) session \<Rightarrow> bool" for E :: "'x ext" where
  start: "\<forall>f \<in> set fs. safe_setup E (snd f) \<Longrightarrow> Start E fs c w = Some (r, c', w') \<Longrightarrow>
     step E (c, w) StartCalled (c', w')"
| collect: "\<forall>f \<in> set gs. pkg_setup E f \<Longrightarrow> CollectTopology service gs w = Some (tp, w') \<Longrightarrow>
     step E (c, w) (TopologyCollected service) (c, w')"
| deliver_js: "(s, cfg, consumer) \<in> set (js_callbacks w) \<Longrightarrow>
     handleMessage E consumer msg w = Some w' \<Longrightarrow>
     step E (c, w) (MessageDelivered (jm_Id msg) (verdict E consumer msg w)) (c, w')"
| deliver_core: "(subject, cb) \<in> set (core_callbacks w) \<Longrightarrow>
     deliver_core E cb msg' w = Some w' \<Longrightarrow>
     step E (c, w) (RequestDelivered (msg_Reply msg') (must_answer cb)) (c, w')"
| publish: "Publish E (pubs w pid) ctx k (\<lambda>_. marshalled) () headers w = Some (r, w') \<Longrightarrow>
     step E (c, w) (PublishCalled (publish_intent E (pubs w pid) k headers marshalled)) (c, w')"
| publish_raw: "PublishRaw E (NewOutboxRawPublisher (pubs w pid)) k payload hs w = (r, w') \<Longrightarrow>
     step E (c, w) (PublishCalled (raw_intent E (pubs w pid) k payload)) (c, w')"
| close: "Close E c w = (r, w') \<Longrightarrow> step E (c, w) OtherCall (c, w')"
| metrics: "InitMetrics E opts w = (r, w') \<Longrightarrow> step E (c, w) OtherCall (c, w')"
| application: "app_change w w' \<Longrightarrow> step E (c, w) OtherCall (c, w')"

inductive reachable :: "'x ext \<Rightarrow> ('x, 'app) session \<Rightarrow> bool" for E :: "'x ext" where
  init: "NewConnection service url opts = Inr c \<Longrightarrow> fresh_world w \<Longrightarrow> reachable E (c, w)"
| step: "reachable E s \<Longrightarrow> step E s l s' \<Longrightarrow> reachable E s'"

text \<open>The labels on the way to a state, in order.\<close>

inductive session_run :: "'x ext \<Rightarrow> session_event list \<Rightarrow> ('x, 'app) session \<Rightarrow> bool"
  for E :: "'x ext" where
  init: "NewConnection service url opts = Inr c \<Longrightarrow> fresh_world w \<Longrightarrow> session_run E [] (c, w)"
| step: "session_run E ls s \<Longrightarrow> step E s l s' \<Longrightarrow> session_run E (ls @ [l]) s'"

lemma session_run_reachable: "session_run E ls s \<Longrightarrow> reachable E s"
  by (induction rule: session_run.induct) (blast intro: reachable.intros)+

lemma reachable_session_run: "reachable E s \<Longrightarrow> \<exists>ls. session_run E ls s"
  by (induction rule: reachable.induct) (blast intro: session_run.intros)+

section \<open>What operations outside Start keep\<close>

text \<open>The callbacks and publishers are kept, the channels stay open and within their capacity, and
  metric updates are well labelled.\<close>

definition keeps :: "('x, 'app) nworld \<Rightarrow> ('x, 'app) nworld \<Rightarrow> bool" where
  "keeps w w' \<longleftrightarrow>
     pubs w' = pubs w \<and> js_callbacks w' = js_callbacks w \<and> core_callbacks w' = core_callbacks w \<and>
     (channels_ok w \<longrightarrow> channels_ok w') \<and>
     (\<forall>i. ch_closed (nchans w' i) = ch_closed (nchans w i)) \<and>
     (\<forall>i. ch_closed (echans w' i) = ch_closed (echans w i)) \<and>
     (list_all labels_match (trace w) \<longrightarrow> list_all labels_match (trace w'))"

lemma keeps_refl [simp]: "keeps w w"
  by (simp add: keeps_def)

lemma keeps_trans [trans]: "keeps u v \<Longrightarrow> keeps v w \<Longrightarrow> keeps u w"
  by (simp add: keeps_def)

lemma keeps_emit: "labels_match x \<Longrightarrow> keeps w w' \<Longrightarrow> keeps w (emit x w')"
  by (auto simp: keeps_def channels_ok_def)

lemma keeps_log: "keeps w w' \<Longrightarrow> keeps w (log_at l s w')"
  by (simp add: log_at_def keeps_emit)

lemma keeps_counts:
  "keeps w w' \<Longrightarrow> keeps w (eventReceived c k w')"
  "keeps w w' \<Longrightarrow> keeps w (eventWithoutHandler c k w')"
  "keeps w w' \<Longrightarrow> keeps w (eventNotParsable c k w')"
  "keeps w w' \<Longrightarrow> keeps w (eventNak c k ms w')"
  "keeps w w' \<Longrightarrow> keeps w (eventAck c k ms w')"
  "keeps w w' \<Longrightarrow> keeps w (eventPublishSucceed c k ms w')"
  "keeps w w' \<Longrightarrow> keeps w (eventPublishFailed c k ms w')"
  by (simp_all add: eventReceived_def eventWithoutHandler_def eventNotParsable_def eventNak_def
      eventAck_def eventPublishSucceed_def eventPublishFailed_def Let_def keeps_emit)

lemmas keeps_intros = keeps_refl keeps_emit keeps_log keeps_counts

lemma keeps_notify_succeed:
  assumes "notifyEventHandlerSucceed ch info took w = Some w'"
  shows "keeps w w'"
proof -
  have "pubs w' = pubs w" "js_callbacks w' = js_callbacks w" "core_callbacks w' = core_callbacks w"
    using assms by (cases rule: notify_succeedE; simp)+
  then show ?thesis
    using notify_succeed_frame [OF assms] notify_succeed_ok [OF assms] by (simp add: keeps_def)
qed

lemma keeps_notify_failed:
  assumes "notifyEventHandlerFailed ch info took err w = Some w'"
  shows "keeps w w'"
proof -
  have "pubs w' = pubs w" "js_callbacks w' = js_callbacks w" "core_callbacks w' = core_callbacks w"
    using assms by (cases rule: notify_failedE; simp)+
  then show ?thesis
    using notify_failed_frame [OF assms] notify_failed_ok [OF assms] by (simp add: keeps_def)
qed

lemma keeps_invoke:
  assumes "invoke_handler E consumer info hdr data h w = Some (r, t0, w')"
  shows "keeps w w'"
  using assms by (auto elim!: invoke_handlerE simp: keeps_def channels_ok_def)

lemma keeps_settle: "keeps w w' \<Longrightarrow> keeps w (settle_failure c msg k ms e w')"
  by (simp add: settle_failure_def Let_def keeps_intros)

lemma keeps_respond: "keeps w w' \<Longrightarrow> keeps w (respond_error E msg e w')"
  by (simp add: respond_error_def keeps_intros)

lemma keeps_finish_delivery:
  assumes "finish_delivery E c msg k info t0 r w = Some w'"
  shows "keeps w w'"
proof (cases r)
  case (Some e)
  let ?w1 = "emit (SpanSetStatus StatusError (err_text E e)) (emit (SpanRecordError e) w)"
  from assms Some obtain ms w2 where n: "notifyEventHandlerFailed (jsc_errorCh c) info ms e ?w1 = Some w2"
    and w': "w' = emit SpanEnd (settle_failure c msg k ms e w2)"
    by (auto simp: finish_delivery_def Let_def bind_eq_Some_conv)
  have "keeps w w2"
    by (rule keeps_trans [OF _ keeps_notify_failed [OF n]]) (simp add: keeps_intros)
  then show ?thesis by (simp add: w' keeps_intros keeps_settle)
next
  case None
  from assms None obtain ms w2 where
    n: "notifyEventHandlerSucceed (jsc_notificationCh c) info ms (emit (SpanSetStatus StatusOk '''') w)
      = Some w2"
    and w': "w' = emit SpanEnd (log_at LevelDebug ''message processed''
      (eventAck (jsc_name c) k ms (emit (MsgAck (jm_Id msg)) w2)))"
    by (auto simp: finish_delivery_def Let_def bind_eq_Some_conv)
  have "keeps w w2"
    by (rule keeps_trans [OF _ keeps_notify_succeed [OF n]]) (simp add: keeps_intros)
  then show ?thesis by (simp add: w' keeps_intros)
qed

text \<open>A delivery: perhaps a warning, the handler, and what follows from its result.\<close>

lemma handleDelivery_path:
  assumes "handleDelivery E c h msg k w = Some w'"
  obtains info v r t0 w1 where "v = w \<or> (\<exists>l m. v = log_at l m w)"
    "invoke_handler E c info (jm_Headers msg) (jm_Data msg) h v = Some (r, t0, w1)"
    "finish_delivery E c msg k info t0 r w1 = Some w'"
proof -
  define info where "info = \<lparr>di_Destination = jsc_name c, di_Source = jsc_stream c, di_Key = k,
    di_Headers = fromNATSHeaders E (map_rank E (trace w) ''fromNATSHeaders'') (jm_Headers msg)\<rparr>"
  define v where "v = (if spec_ValidateCEHeaders E (di_Headers info) \<noteq> []
    then log_at LevelWarn ''incoming message has invalid CloudEvents headers'' w else w)"
  have "handleDelivery E c h msg k w
      = do { (r, t0, w1) \<leftarrow> invoke_handler E c info (jm_Headers msg) (jm_Data msg) h v;
             finish_delivery E c msg k info t0 r w1 }"
    by (simp add: handleDelivery_def Let_def info_def v_def)
  with assms obtain r t0 w1 where
    "invoke_handler E c info (jm_Headers msg) (jm_Data msg) h v = Some (r, t0, w1)"
    "finish_delivery E c msg k info t0 r w1 = Some w'"
    by (auto simp: bind_eq_Some_conv)
  moreover have "v = w \<or> (\<exists>l m. v = log_at l m w)" unfolding v_def by auto
  ultimately show thesis by (intro that)
qed

lemma keeps_handleDelivery:
  assumes "handleDelivery E c h msg k w = Some w'"
  shows "keeps w w'"
  using assms
proof (rule handleDelivery_path)
  fix info v r t0 w1
  assume v: "v = w \<or> (\<exists>l m. v = log_at l m w)"
    and inv: "invoke_handler E c info (jm_Headers msg) (jm_Data msg) h v = Some (r, t0, w1)"
    and fin: "finish_delivery E c msg k info t0 r w1 = Some w'"
  from v have "keeps w v" by (auto simp: keeps_intros)
  then have "keeps w w1"
    by (rule keeps_trans) (rule keeps_invoke [OF inv])
  then show ?thesis
    by (rule keeps_trans) (rule keeps_finish_delivery [OF fin])
qed

lemma keeps_handleMessage:
  assumes "handleMessage E c msg w = Some w'"
  shows "keeps w w'"
proof -
  let ?k = "routing_key_of_subject (jm_Subject msg)"
  let ?w0 = "eventReceived (jsc_name c) ?k w"
  show ?thesis
  proof (cases "rkh_get E (map_rank E (trace ?w0) ''get'') (jsc_handlers c) ?k")
    case None
    with assms show ?thesis
      by (auto simp: handleMessage_def Let_def keeps_intros)
  next
    case (Some h)
    with assms have "handleDelivery E c h msg ?k ?w0 = Some w'"
      by (simp add: handleMessage_def Let_def)
    then have "keeps ?w0 w'" by (rule keeps_handleDelivery)
    with keeps_counts(1) [OF keeps_refl] show ?thesis by (rule keeps_trans)
  qed
qed

lemma keeps_finish_core:
  assumes "finish_core E c msg k info t0 r w = Some w'"
  shows "keeps w w'"
proof (cases r)
  case (Some e)
  let ?w1 = "emit (SpanSetStatus StatusError (err_text E e)) (emit (SpanRecordError e) w)"
  from assms Some obtain ms w2 where n: "notifyEventHandlerFailed (jsc_errorCh c) info ms e ?w1 = Some w2"
    and w': "w' = emit SpanEnd (respond_error E msg e (eventNak (jsc_name c) k ms
      (log_at LevelError ''handler failed'' w2)))"
    by (auto simp: finish_core_def Let_def bind_eq_Some_conv)
  have "keeps w w2"
    by (rule keeps_trans [OF _ keeps_notify_failed [OF n]]) (simp add: keeps_intros)
  then show ?thesis by (simp add: w' keeps_intros keeps_respond)
next
  case None
  from assms None obtain ms w2 where
    n: "notifyEventHandlerSucceed (jsc_notificationCh c) info ms (emit (SpanSetStatus StatusOk '''') w)
      = Some w2"
    and w': "w' = emit SpanEnd (log_at LevelDebug ''message processed'' (eventAck (jsc_name c) k ms w2))"
    by (auto simp: finish_core_def Let_def bind_eq_Some_conv)
  have "keeps w w2"
    by (rule keeps_trans [OF _ keeps_notify_succeed [OF n]]) (simp add: keeps_intros)
  then show ?thesis by (simp add: w' keeps_intros)
qed

lemma keeps_handleCoreMessage:
  assumes "handleCoreMessage E c msg k w = Some w'"
  shows "keeps w w'"
proof -
  let ?w0 = "eventReceived (jsc_name c) k w"
  have w0: "keeps w ?w0" by (simp add: keeps_intros)
  show ?thesis
  proof (cases "rkh_get E (map_rank E (trace ?w0) ''get'') (jsc_handlers c) k")
    case None
    with assms show ?thesis
      by (auto simp: handleCoreMessage_def Let_def keeps_intros)
  next
    case (Some h)
    with assms obtain info r t0 w1 where
      inv: "invoke_handler E c info (msg_Header msg) (msg_Data msg) h ?w0 = Some (r, t0, w1)"
      and fin: "finish_core E c msg k info t0 r w1 = Some w'"
      by (auto simp: handleCoreMessage_def Let_def bind_eq_Some_conv)
    from w0 have "keeps w w1"
      by (rule keeps_trans) (rule keeps_invoke [OF inv])
    then show ?thesis
      by (rule keeps_trans) (rule keeps_finish_core [OF fin])
  qed
qed

lemma keeps_request_callback:
  assumes "request_callback E c k name h msg w = Some w'"
  shows "keeps w w'"
proof -
  define info where "info = \<lparr>di_Destination = name, di_Source = msg_Subject msg, di_Key = k,
    di_Headers = fromNATSHeaders E (map_rank E (trace w) ''fromNATSHeaders'') (msg_Header msg)\<rparr>"
  obtain r t0 w1 where
    inv: "invoke_handler E c info (msg_Header msg) (msg_Data msg) h w = Some (r, t0, w1)"
    using assms by (auto simp: request_callback_def Let_def bind_eq_Some_conv info_def)
  note k = keeps_invoke [OF inv]
  show ?thesis
  proof (cases r)
    case (Inl e)
    with assms inv k show ?thesis
      by (auto simp: request_callback_def Let_def info_def keeps_intros keeps_respond)
  next
    case (Inr b)
    with assms inv k show ?thesis
      by (auto simp: request_callback_def Let_def info_def keeps_intros)
  qed
qed

lemma keeps_deliver_core: "deliver_core E cb msg w = Some w' \<Longrightarrow> keeps w w'"
  by (auto simp: deliver_core_def split: core_callback.splits
      intro: keeps_handleCoreMessage keeps_request_callback)

lemma keeps_finish_publish: "keeps w w' \<Longrightarrow> keeps w (snd (finish_publish E p k ms r w'))"
  by (simp add: finish_publish_def Let_def keeps_intros split: option.split)

lemma labels_match_publish [simp]: "labels_match (publish_call fn m)"
  by (cases fn) simp_all

text \<open>Publishing: refused for a header, refused for the payload, or one call.\<close>

lemma Publish_path:
  assumes "Publish E p ctx k marshal msg headers w = Some (r, w')"
  obtains (Header) "w' = w" "publish_intent E p k headers (marshal msg) = None"
  | (Payload) e name attrs where "publish_intent E p k headers (marshal msg) = None"
    "w' = emit SpanEnd (emit (SpanSetStatus StatusError (err_text E e)) (emit (SpanRecordError e)
      (emit (SpanStart name SpanKindProducer attrs) w)))"
  | (Sent) fn ms r' m name attrs as where
    "publish_intent E p k headers (marshal msg) = Some (msg_Subject m, msg_Data m)"
    "w' = snd (finish_publish E p k ms r' (emit (publish_call fn m)
      (emit (SpanSetAttributes as) (emit (SpanStart name SpanKindProducer attrs) w))))"
proof (cases "List.find (\<lambda>h. validateKey h \<noteq> None) headers")
  case (Some h)
  then have "\<not> (\<forall>h \<in> set headers. validateKey h = None)" by (auto simp: find_Some_iff)
  then have "publish_intent E p k headers (marshal msg) = None"
    by (cases "marshal msg") (simp_all only: publish_intent_def sum.case if_False)
  with Publish_invalid(1) [OF Some, of E p ctx k marshal msg w] assms Header show thesis by simp
next
  case valid: None
  then have all: "\<forall>h \<in> set headers. validateKey h = None" by (simp add: find_None_iff)
  show thesis
  proof (cases "marshal msg")
    case (Inl e)
    with assms valid Payload show thesis
      by (auto simp: Publish_def add_headers_eq publishMessage_def Let_def publish_intent_def)
  next
    case (Inr bytes)
    from assms have run: "publishMessage E p ctx k (Inr bytes) (given_headers E p headers) w = Some (r, w')"
      by (simp add: Publish_valid [OF valid, of marshal msg, OF Inr])
    show thesis
    proof (cases "p_publishFn p")
      case None
      with run show thesis
        by (simp add: publishMessage_def Let_def case_prod_unfold)
    next
      case (Some fn)
      have "\<exists>ms r' m name attrs as. finish_publish E p k ms r' (emit (publish_call fn m)
          (emit (SpanSetAttributes as) (emit (SpanStart name SpanKindProducer attrs) w))) = (r, w') \<and>
          msg_Subject m = publish_subject E p k \<and> msg_Data m = bytes"
        using run unfolding publishMessage_def Let_def Some sum.case case_prod_unfold
          call_publishFn_eq Option.bind.bind_lunit option.inject fst_conv snd_conv
        by (intro exI conjI) (assumption, simp_all)
      then obtain ms r' m name attrs as where
        "finish_publish E p k ms r' (emit (publish_call fn m)
          (emit (SpanSetAttributes as) (emit (SpanStart name SpanKindProducer attrs) w))) = (r, w')"
        "msg_Subject m = publish_subject E p k" "msg_Data m = bytes" by blast
      with Sent [of m ms r' fn as name attrs] all Inr show thesis by (simp add: publish_intent_def)
    qed
  qed
qed

lemma keeps_Publish:
  assumes "Publish E p ctx k marshal msg headers w = Some (r, w')"
  shows "keeps w w'"
  using assms by (cases rule: Publish_path) (simp_all add: keeps_finish_publish keeps_intros)

lemma keeps_PublishRaw: "keeps w (snd (PublishRaw E a k payload hs w))"
  by (simp add: PublishRaw_def Let_def call_publishFn_eq keeps_intros split: option.split)

lemma keeps_Close: "keeps w (snd (Close E c w))"
  by (auto simp: Close_eq keeps_def channels_ok_def list_all_iff Let_def)

lemma keeps_register: "keeps w (snd (register_collectors E cs w))"
proof (induction cs arbitrary: w)
  case Nil
  then show ?case by simp
next
  case (Cons d ds)
  have reg: "keeps w (emit (RegisterCollector d) w)" by (simp add: keeps_intros)
  have "keeps w (snd (register_collectors E ds (emit (RegisterCollector d) w)))"
    using reg Cons.IH by (rule keeps_trans)
  with reg show ?case by (simp add: perform_def split: option.split)
qed

lemma keeps_InitMetrics: "keeps w (snd (InitMetrics E opts w))"
proof -
  have "keeps w (w\<lparr>routingKeyMapperVal := f\<rparr>)" for f
    by (simp add: keeps_def channels_ok_def)
  then show ?thesis
    unfolding InitMetrics_def Let_def by (rule keeps_trans) (rule keeps_register)
qed

section \<open>The invariant\<close>

definition callbacks_named :: "('x, 'app) nworld \<Rightarrow> bool" where
  "callbacks_named w \<longleftrightarrow>
     (\<forall>(s, cb) \<in> set (core_callbacks w). jsc_spanNameFn (cb_consumer cb) \<noteq> None) \<and>
     (\<forall>(s, cfg, consumer) \<in> set (js_callbacks w). jsc_spanNameFn consumer \<noteq> None)"

text \<open>The connection accounts for every callback: one handle per JetStream consumer and one
  subscription per Core NATS callback, in the order in which they were registered.\<close>

definition accounted :: "('x, 'app) connection \<Rightarrow> ('x, 'app) nworld \<Rightarrow> bool" where
  "accounted c w \<longleftrightarrow>
     conn_consumers c = map (\<lambda>i. \<lparr>jh_ctx = Some i\<rparr>) [0..<length (js_callbacks w)] \<and>
     conn_subscriptions c = [0..<length (core_callbacks w)]"

definition session_ok :: "('x, 'app) session \<Rightarrow> bool" where
  "session_ok s \<longleftrightarrow> (case s of (c, w) \<Rightarrow>
     \<not> conn_collectMode c \<and> conn_serviceName c \<noteq> '''' \<and> accounted c w \<and> callbacks_named w \<and>
     (conn_started c \<longrightarrow> conn_nc c \<and> conn_js c \<and> conn_pendingJSConsumers c = []) \<and>
     channels_ok w \<and> list_all labels_match (trace w))"

lemma spans_named_iff: "spans_named c w \<longleftrightarrow> conn_spanNameFn c \<noteq> None \<and> callbacks_named w"
  by (simp add: spans_named_def callbacks_named_def)

lemma keeps_session_ok:
  "keeps w w' \<Longrightarrow> session_ok (c, w) \<Longrightarrow> session_ok (c, w')"
  by (simp add: keeps_def session_ok_def accounted_def callbacks_named_def)

lemma setup_call_labels: "list_all (setup_call b) u \<Longrightarrow> list_all labels_match u"
proof (induction u)
  case (Cons x u)
  then show ?case by (cases x) auto
qed simp

lemma pending_call_labels: "list_all pending_call u \<Longrightarrow> list_all labels_match u"
proof (induction u)
  case (Cons x u)
  then show ?case by (cases x) simp_all
qed simp

lemma accounted_append:
  assumes "accounted c w"
    and "conn_consumers c' = conn_consumers c
       @ map (\<lambda>i. \<lparr>jh_ctx = Some (length (js_callbacks w) + i)\<rparr>) [0..<n]"
    and "length (js_callbacks w') = length (js_callbacks w) + n"
    and "conn_subscriptions c' = conn_subscriptions c" and "core_callbacks w' = core_callbacks w"
  shows "accounted c' w'"
proof -
  have shift: "map (\<lambda>i. \<lparr>jh_ctx = Some (m + i)\<rparr>) [0..<n] = map (\<lambda>i. \<lparr>jh_ctx = Some i\<rparr>) [m..<m + n]"
    for m
    by (induction n) simp_all
  have "[0..<length (js_callbacks w')] = [0..<length (js_callbacks w)]
      @ [length (js_callbacks w)..<length (js_callbacks w) + n]"
    using upt_add_eq_append [of 0 "length (js_callbacks w)" n] assms(3) by simp
  then show ?thesis
    using assms by (simp add: accounted_def shift)
qed

text \<open>Running the setup functions of a live connection, and starting the pending consumers.\<close>

definition live_ok :: "('x, 'app) connection \<Rightarrow> ('x, 'app) nworld \<Rightarrow> bool" where
  "live_ok c w \<longleftrightarrow>
     \<not> conn_collectMode c \<and> conn_serviceName c \<noteq> '''' \<and> accounted c w \<and> spans_named c w \<and>
     \<not> conn_started c \<and> channels_ok w \<and> list_all labels_match (trace w)"

lemma run_setups_live_ok:
  assumes "\<forall>f \<in> set fs. safe_setup E (snd f)" and "run_setups E fs c w = Some (r, c', w')"
    and "live_ok c w"
  shows "live_ok c' w'" "conn_nc c' = conn_nc c" "conn_js c' = conn_js c"
proof -
  from safe.run_session [OF assms(1,2)] have s: "same_session c c'"
    "js_callbacks w' = js_callbacks w" "same_app w w'" by simp_all
  from safe.run_calls [OF assms(1,2)] obtain u where u: "trace w' = trace w @ u"
    "list_all (setup_call (conn_collectMode c)) u" by blast
  from safe.run_subscribes [OF assms(1,2)] obtain cbs where
    cbs: "core_callbacks w' = core_callbacks w @ cbs"
    "conn_subscriptions c' = conn_subscriptions c
       @ [length (core_callbacks w)..<length (core_callbacks w')]" by blast
  have "spans_named c' w'"
    using safe.run_spans [OF assms(1,2)] assms(3) by (simp add: live_ok_def)
  moreover have "accounted c' w'"
    using s cbs assms(3) by (simp add: live_ok_def accounted_def same_session_def
        upt_add_eq_append [symmetric])
  moreover have "channels_ok w'"
    using s(3) assms(3) by (simp add: same_app_def channels_ok_def live_ok_def)
  ultimately show "live_ok c' w'"
    using s(1) u setup_call_labels assms(3) by (auto simp: live_ok_def same_session_def)
  show "conn_nc c' = conn_nc c" "conn_js c' = conn_js c"
    using s(1) by (simp_all add: same_session_def)
qed

lemma startPending_live_ok:
  assumes "startPendingJSConsumers E c w = Some (r, c', w')" and "live_ok c w"
  shows "live_ok c' w'" "conn_nc c' = conn_nc c" "conn_js c' = conn_js c"
    "r = None \<Longrightarrow> conn_pendingJSConsumers c' = []"
proof -
  obtain n u where n: "n \<le> length (groups_of (conn_pendingJSConsumers c))"
    and c': "c' = c\<lparr>conn_consumers := conn_consumers c
        @ map (\<lambda>i. \<lparr>jh_ctx = Some (length (js_callbacks w) + i)\<rparr>) [0..<n],
       conn_pendingJSConsumers := (if r = None then [] else conn_pendingJSConsumers c)\<rparr>"
    and js: "js_callbacks w' = js_callbacks w
       @ map (group_callback E c) (take n (groups_of (conn_pendingJSConsumers c)))"
    and core: "core_callbacks w' = core_callbacks w" and app: "same_app w w'"
    and u: "trace w' = trace w @ u" "list_all pending_call u"
    by (rule startPending_result [OF assms(1)]) blast
  have "accounted c' w'"
    by (rule accounted_append [of c w]) (use assms(2) n in \<open>simp_all add: live_ok_def c' js core\<close>)
  moreover have "spans_named c' w'"
    using assms(2) by (auto simp: live_ok_def spans_named_def c' js core group_callback_def
        group_consumer_def)
  moreover have "channels_ok w'"
    using assms(2) app by (simp add: live_ok_def channels_ok_def same_app_def)
  ultimately show "live_ok c' w'"
    using assms(2) u pending_call_labels by (auto simp: live_ok_def c')
  show "conn_nc c' = conn_nc c" "conn_js c' = conn_js c"
    "r = None \<Longrightarrow> conn_pendingJSConsumers c' = []"
    by (simp_all add: c')
qed

lemma live_ok_emit: "labels_match x \<Longrightarrow> live_ok c w \<Longrightarrow> live_ok c (emit x w)"
  by (simp add: live_ok_def accounted_def spans_named_def channels_ok_def)

lemma live_session_ok:
  assumes "live_ok c w" and "labels_match x"
  shows "session_ok (c, emit x w)"
    and "conn_nc c \<Longrightarrow> conn_js c \<Longrightarrow> conn_pendingJSConsumers c = [] \<Longrightarrow>
      session_ok (c\<lparr>conn_started := True\<rparr>, emit x w)"
  using assms by (simp_all add: live_ok_def session_ok_def spans_named_iff accounted_def
      callbacks_named_def channels_ok_def)

lemma Start_session_ok:
  assumes "\<forall>f \<in> set fs. safe_setup E (snd f)" and "Start E fs c w = Some (r, c', w')"
    and "session_ok (c, w)"
  shows "session_ok (c', w')"
proof (cases "conn_started c")
  case True
  with assms(2,3) show ?thesis by (simp add: Start_def)
next
  case False
  have live: "\<not> conn_collectMode c" using assms(3) by (simp add: session_ok_def)
  have ok: "live_ok (with_span_name c) w"
    using assms(3) False by (simp add: live_ok_def session_ok_def spans_named_iff accounted_def)
  then have con: "live_ok (connected c) (after_connect c w)"
    by (simp add: live_ok_def connected_def after_connect_def accounted_def spans_named_def
        channels_ok_def)
  from False live assms(2) show ?thesis
  proof (cases rule: Start_live)
    case (Connect e)
    with live_session_ok(1) [OF ok] show ?thesis by simp
  next
    case JetStream
    have "live_ok c' (emit JetStreamNew (emit (connect_call c) w))"
      using ok by (simp add: JetStream(3) live_ok_def accounted_def spans_named_def channels_ok_def)
    from live_session_ok(1) [OF this, of NcClose] JetStream(4) show ?thesis by simp
  next
    case (Setup w1)
    from live_session_ok(1) [OF run_setups_live_ok(1) [OF assms(1) Setup(3) con], of NcClose] Setup(4)
    show ?thesis by simp
  next
    case (Pending c1 w1 w2)
    from live_session_ok(1) [OF startPending_live_ok(1) [OF Pending(4)
          run_setups_live_ok(1) [OF assms(1) Pending(3) con]], of NcClose] Pending(5)
    show ?thesis by simp
  next
    case (Started c1 w1 c2 w2)
    note 1 = run_setups_live_ok [OF assms(1) Started(3) con]
    note 2 = startPending_live_ok [OF Started(4) 1(1)]
    have "conn_nc c2" "conn_js c2"
      using 1(2,3) 2(2,3) by (simp_all add: connected_def)
    with live_session_ok(2) [OF 2(1)] 2(4) Started(5,6) show ?thesis by (simp add: log_at_def)
  qed
qed

text \<open>Collecting a topology writes log records, changes publishers, and nothing else.\<close>

lemma pkg_setup_collects_core:
  assumes "pkg_setup E f" and "conn_collectMode c" and "f c w = Some (r, c', w')"
  shows "core_callbacks w' = core_callbacks w"
  using assms(1)
proof cases
  case config
  from config_setup_frame(1) [OF config assms(3)] show ?thesis by simp
next
  case (stream opts e t h st k)
  with stream_consumer_result(1) assms(3) show ?thesis by blast
next
  case (core cb what t k)
  with assms(2,3) show ?thesis by (auto simp: core_setup_def)
next
  case (response t target k)
  with assms(3) show ?thesis by (auto simp: response_setup_def)
next
  case (stream_publisher st pid)
  with StreamPublisher_result(1) assms(3) show ?thesis by blast
next
  case (service_publisher target pid)
  with ServicePublisher_result(1) assms(3) show ?thesis by blast
qed

lemma collect_setups_frame:
  "\<forall>f \<in> set fs. pkg_setup E f \<Longrightarrow> conn_collectMode c \<Longrightarrow> collect_setups fs c w = Some (r, c', w') \<Longrightarrow>
   core_callbacks w' = core_callbacks w \<and> js_callbacks w' = js_callbacks w \<and> same_app w w'"
proof (induction fs arbitrary: c w)
  case Nil
  then show ?case by simp
next
  case (Cons f fs)
  then obtain e c1 w1 where P: "pkg_setup E f" and f: "f c w = Some (e, c1, w1)"
    by (auto simp: bind_eq_Some_conv)
  have 1: "core_callbacks w1 = core_callbacks w" "js_callbacks w1 = js_callbacks w" "same_app w w1"
    "conn_collectMode c1"
    using pkg_setup_collects_core [OF P Cons.prems(2) f] pkg.consumers [OF P f]
      pkg.application [OF P f] pkg.session [OF P f] Cons.prems(2) by (auto simp: same_session_def)
  with Cons f show ?case by (auto split: option.splits intro: same_app_trans)
qed

lemma CollectTopology_frame:
  assumes "\<forall>f \<in> set fs. pkg_setup E f" and "CollectTopology service fs w = Some (r, w')"
  obtains u where "trace w' = trace w @ u" "list_all (setup_call True) u"
    "core_callbacks w' = core_callbacks w" "js_callbacks w' = js_callbacks w" "same_app w w'"
proof -
  define c :: "('a, 'b) connection" where "c = zero_connection
    \<lparr>conn_serviceName := service, conn_logger := Some [],
     conn_topology := \<lparr>tp_Transport = TransportNATS, tp_ServiceName = service, tp_Endpoints = []\<rparr>,
     conn_collectMode := True\<rparr>"
  obtain e d where run: "collect_setups fs c w = Some (e, d, w')"
    using assms(2) by (auto simp: CollectTopology_def Let_def bind_eq_Some_conv c_def)
  have c: "conn_collectMode c" by (simp add: c_def)
  from pkg.collect_calls [OF assms(1) run] collect_setups_frame [OF assms(1) c run] c that
  show thesis by auto
qed

lemma CollectTopology_session_ok:
  assumes "\<forall>f \<in> set fs. pkg_setup E f" and "CollectTopology service fs w = Some (r, w')"
    and "session_ok (c, w)"
  shows "session_ok (c, w')"
  using assms(1,2)
proof (rule CollectTopology_frame)
  fix u
  assume "trace w' = trace w @ u" "list_all (setup_call True) u"
    "core_callbacks w' = core_callbacks w" "js_callbacks w' = js_callbacks w" "same_app w w'"
  with assms(3) setup_call_labels [of True u] show ?thesis
    by (simp add: session_ok_def accounted_def callbacks_named_def channels_ok_def same_app_def)
qed

lemma app_change_session_ok: "app_change w w' \<Longrightarrow> session_ok (c, w) \<Longrightarrow> session_ok (c, w')"
  by (auto simp: app_change_def session_ok_def accounted_def callbacks_named_def)

lemma step_session_ok: "step E s l s' \<Longrightarrow> session_ok s \<Longrightarrow> session_ok s'"
proof (induction rule: step.induct)
  case (start fs c w r c' w')
  then show ?case using Start_session_ok by blast
next
  case (collect gs service w tp w' c)
  then show ?case using CollectTopology_session_ok by blast
next
  case (deliver_js s cfg consumer w msg w' c)
  then show ?case using keeps_handleMessage keeps_session_ok by blast
next
  case (deliver_core subject cb w msg w' c)
  then show ?case using keeps_deliver_core keeps_session_ok by blast
next
  case (publish w pid ctx k m headers r w' c)
  then show ?case using keeps_session_ok [OF keeps_Publish [OF publish(1)]] by blast
next
  case (publish_raw w pid k payload hs r w' c)
  then show ?case
    using keeps_PublishRaw [of w E "NewOutboxRawPublisher (pubs w pid)" k payload hs]
      keeps_session_ok by simp
next
  case (close c w r w')
  then show ?case using keeps_Close [of w E c] keeps_session_ok by simp
next
  case (metrics opts w r w' c)
  then show ?case using keeps_InitMetrics [of w E opts] keeps_session_ok by simp
next
  case (application w w' c)
  then show ?case by (rule app_change_session_ok)
qed

lemma reachable_session_ok: "reachable E s \<Longrightarrow> session_ok s"
proof (induction rule: reachable.induct)
  case (init service url opts c w)
  then show ?case
    by (auto simp: NewConnection_def newConnection_def zero_connection_def fresh_world_def
        session_ok_def accounted_def callbacks_named_def split: if_splits)
next
  case (step s l s')
  then show ?case using step_session_ok by blast
qed

section \<open>Properties\<close>

text \<open>A session that has started, with one JetStream consumer and one publisher.\<close>

lemma demo_started:
  "\<exists>c w s cfg consumer. Start demo_ext demo_setups demo_conn demo_nworld = Some (None, c, w) \<and>
     conn_started c \<and> js_callbacks w = [(s, cfg, consumer)] \<and>
     snd ` set (jsc_handlers consumer)
       = {newWrappedHandler demo_ext demo_type (\<lambda>_ _ s. Some (None, s + 1))} \<and>
     nchans w = nchans demo_nworld \<and> echans w = echans demo_nworld \<and>
     p_publishFn (pubs w 0) = Some JsPublish"
  by (simp add: demo_run_defs demo_ext_def demo_nworld_def group_consumer_def rkh_add_def
      publisher_setup_def)

lemma demo_fresh: "fresh_world demo_nworld"
  by (simp add: fresh_world_def demo_nworld_def channels_ok_def chan_ok_def demo_chan_def)

lemma demo_NewConnection: "NewConnection ''svc'' ''nats://localhost'' [] = Inr demo_conn"
  by (simp add: NewConnection_def)

lemma demo_handlers_total:
  "total_handler (newWrappedHandler demo_ext demo_type (\<lambda>_ _ s. Some (None, s + 1))
     :: (unit, nat) wrappedHandler)"
  by (simp add: total_handler_def newWrappedHandler_def demo_type_def split: sum.split)

lemma demo_session:
  obtains c w s cfg consumer where "reachable demo_ext (c, w)" and "conn_started c"
    and "Start demo_ext demo_setups demo_conn demo_nworld = Some (None, c, w)"
    and "(s, cfg, consumer) \<in> set (js_callbacks w)"
    and "\<forall>h \<in> snd ` set (jsc_handlers consumer). total_handler h"
    and "\<And>i. \<not> ch_closed (nchans w i)" and "\<And>i. \<not> ch_closed (echans w i)"
    and "p_publishFn (pubs w 0) = Some JsPublish"
proof -
  obtain c w s cfg consumer where run: "Start demo_ext demo_setups demo_conn demo_nworld = Some (None, c, w)"
    and facts: "conn_started c" "js_callbacks w = [(s, cfg, consumer)]"
    "snd ` set (jsc_handlers consumer)
       = {newWrappedHandler demo_ext demo_type (\<lambda>_ _ s. Some (None, s + 1))}"
    "nchans w = nchans demo_nworld" "echans w = echans demo_nworld"
    "p_publishFn (pubs w 0) = Some JsPublish"
    using demo_started by blast
  have "reachable demo_ext (c, w)"
    using reachable.step [OF reachable.init [OF demo_NewConnection demo_fresh]
        step.start [OF demo_setups_safe run]] .
  with run facts that [of c w s cfg consumer] demo_handlers_total show thesis
    by (simp add: demo_nworld_def demo_chan_def)
qed

lemma demo_reachable:
  "\<exists>c w. reachable demo_ext (c :: (unit, nat) connection, w) \<and> conn_started c"
  by (rule demo_session) blast

text \<open>
  C24: Closing a started session stops everything. In every reachable state with a started
  connection, \<open>Close\<close> stops every JetStream consumer that was ever registered, each exactly once and
  in the order of registration, and then drains the NATS connection.
\<close>

theorem close_stops_everything:
  assumes "reachable E (c, w)" and "conn_started c"
  shows "let t = trace w @ map ConsumeStop [0..<length (js_callbacks w)]
         in Close E c w = (answer E t NcDrain, w\<lparr>trace := t @ [NcDrain]\<rparr>)"
proof -
  have map_filter: "List.map_filter jh_ctx (map (\<lambda>i. \<lparr>jh_ctx = Some i\<rparr>) xs) = xs" for xs
    by (induction xs) (simp_all add: map_filter_simps)
  from reachable_session_ok [OF assms(1)] assms(2) show ?thesis
    by (simp add: Close_eq session_ok_def accounted_def map_filter)
qed

theorem close_stops_everything_witness:
  "\<exists>c w w'. reachable demo_ext (c, w) \<and> conn_started (c :: (unit, nat) connection) \<and>
     Close demo_ext c w = (None, w') \<and> last (trace w') = NcDrain"
proof -
  obtain c w where s: "reachable demo_ext (c, w)" "conn_started (c :: (unit, nat) connection)"
    using demo_reachable by blast
  have "answer demo_ext t x = None" for t x by (simp add: demo_ext_def)
  with close_stops_everything [OF s] have "Close demo_ext c w = (None, w\<lparr>trace := trace w
      @ map ConsumeStop [0..<length (js_callbacks w)] @ [NcDrain]\<rparr>)"
    by (simp add: Let_def)
  with s show ?thesis by (intro exI conjI) (assumption | simp)+
qed

end
