(* ===== verification/Session_Spec.thy ===== *)
theory Session_Spec
  imports Session
begin

text \<open>
  What a session promises its environment, as an abstract labelled state machine, and the proof that
  the connection of the package implements it: every step of a session is the step of the abstract
  client with the same label. The client only knows whether it is started, how many callbacks it has
  registered, and the effects the outside world has seen: consumers created, messages settled,
  requests answered, messages published. The label says which of these it owes.
\<close>

section \<open>The abstract client\<close>

datatype effect =
    Created string js_consumer_config
  | Settled nat settlement
  | Replied string string
  | Published nats_msg "int option"

record client =
  cl_started :: bool
  cl_consumers :: nat
  cl_subscriptions :: nat
  cl_effects :: "effect list"

text \<open>
  The consumers that may be created: the delivery limit is not negative; there is either one filter
  subject or a list of at least two, as the JetStream client demands; every filter subject was built
  from a routing key, and the first one for the stream of the consumer.
\<close>

definition filters :: "js_consumer_config \<Rightarrow> string list" where
  "filters cfg =
     (if jc_FilterSubjects cfg = [] then [jc_FilterSubject cfg] else jc_FilterSubjects cfg)"

definition filtered :: "'x ext \<Rightarrow> string \<Rightarrow> js_consumer_config \<Rightarrow> bool" where
  "filtered E s cfg \<longleftrightarrow>
     (jc_FilterSubjects cfg = [] \<or> jc_FilterSubject cfg = '''' \<and> 2 \<le> length (jc_FilterSubjects cfg)) \<and>
     (\<exists>k. hd (filters cfg) = filterSubject E s k) \<and>
     (\<forall>f \<in> set (filters cfg). \<exists>s' k. f = filterSubject E s' k)"

fun creatable :: "'x ext \<Rightarrow> effect \<Rightarrow> bool" where
  "creatable E (Created s cfg) \<longleftrightarrow> 0 \<le> jc_MaxDeliver cfg \<and> filtered E s cfg"
| "creatable E _ \<longleftrightarrow> False"

text \<open>
  A client that is not started may start or try to, creating consumers and registering callbacks as
  it does, one for each consumer if it succeeds and no more than that if it fails; one that is started
  already does nothing. A delivered message is settled once, with the settlement its handler called
  for. A request is answered at most once, on its own reply subject, if it has one, and exactly once if
  it has to be answered. A message that may be published is published once, with the subject and the
  data it was given, and no other is. Nothing else has an effect.
\<close>

inductive client_step :: "'x ext \<Rightarrow> client \<Rightarrow> session_event \<Rightarrow> client \<Rightarrow> bool" for E :: "'x ext" where
  starting: "\<not> cl_started s \<Longrightarrow> cl_consumers s \<le> n \<Longrightarrow> n \<le> cl_consumers s + length es \<Longrightarrow>
     cl_subscriptions s \<le> m \<Longrightarrow> list_all (creatable E) es \<Longrightarrow>
     (b \<Longrightarrow> n = cl_consumers s + length es) \<Longrightarrow>
     client_step E s StartCalled (s\<lparr>cl_started := b, cl_consumers := n, cl_subscriptions := m,
       cl_effects := cl_effects s @ es\<rparr>)"
| restarting: "cl_started s \<Longrightarrow> client_step E s StartCalled s"
| settling: "0 < cl_consumers s \<Longrightarrow>
     client_step E s (MessageDelivered i d) (s\<lparr>cl_effects := cl_effects s @ [Settled i d]\<rparr>)"
| replying: "0 < cl_subscriptions s \<Longrightarrow> to \<noteq> '''' \<Longrightarrow>
     client_step E s (RequestDelivered to b) (s\<lparr>cl_effects := cl_effects s @ [Replied to data]\<rparr>)"
| ignoring: "0 < cl_subscriptions s \<Longrightarrow> to = '''' \<or> \<not> b \<Longrightarrow> client_step E s (RequestDelivered to b) s"
| publishing: "msg_Subject m = subject \<Longrightarrow> msg_Data m = data \<Longrightarrow>
     client_step E s (PublishCalled (Some (subject, data)))
       (s\<lparr>cl_effects := cl_effects s @ [Published m t]\<rparr>)"
| refusing: "client_step E s (PublishCalled None) s"
| collecting: "client_step E s (TopologyCollected service) s"
| idle: "client_step E s OtherCall s"

inductive client_run :: "'x ext \<Rightarrow> session_event list \<Rightarrow> client \<Rightarrow> bool" for E :: "'x ext" where
  init: "client_run E []
     \<lparr>cl_started = False, cl_consumers = 0, cl_subscriptions = 0, cl_effects = []\<rparr>"
| step: "client_run E ls s \<Longrightarrow> client_step E s l s' \<Longrightarrow> client_run E (ls @ [l]) s'"

text \<open>What the labels of a run ask for, and what its effects say happened.\<close>

fun delivery_of :: "session_event \<Rightarrow> (nat \<times> settlement) option" where
  "delivery_of (MessageDelivered i d) = Some (i, d)"
| "delivery_of _ = None"

fun intent_of :: "session_event \<Rightarrow> (string \<times> string) option" where
  "intent_of (PublishCalled intent) = intent"
| "intent_of _ = None"

fun settled_by :: "effect \<Rightarrow> (nat \<times> settlement) option" where
  "settled_by (Settled i d) = Some (i, d)"
| "settled_by _ = None"

fun published_by :: "effect \<Rightarrow> (string \<times> string) option" where
  "published_by (Published m t) = Some (msg_Subject m, msg_Data m)"
| "published_by _ = None"

lemma creatable_views:
  assumes "list_all (creatable E) es"
  shows "List.map_filter settled_by es = []" "List.map_filter published_by es = []"
proof -
  have "settled_by e = None \<and> published_by e = None" if "creatable E e" for e
    using that by (cases e) simp_all
  then have "list_all (\<lambda>e. settled_by e = None \<and> published_by e = None) es"
    using assms by (auto simp: list_all_iff)
  then show "List.map_filter settled_by es = []" "List.map_filter published_by es = []"
    by (induction es) (auto simp: map_filter_simps)
qed

lemma client_run_settles:
  "client_run E ls s \<Longrightarrow> List.map_filter settled_by (cl_effects s) = List.map_filter delivery_of ls \<and>
   List.map_filter published_by (cl_effects s) = List.map_filter intent_of ls"
proof (induction rule: client_run.induct)
  case init
  then show ?case by (simp add: map_filter_simps)
next
  case (step ls s l s')
  from step(2) step.IH show ?case
    by cases (auto simp: map_filter_simps creatable_views)
qed







section \<open>The effects of a session\<close>

fun effect_of :: "'x call \<Rightarrow> effect option" where
  "effect_of (CreateOrUpdateConsumer s cfg) = Some (Created s cfg)"
| "effect_of (MsgAck i) = Some (Settled i Acked)"
| "effect_of (MsgNak i) = Some (Settled i Naked)"
| "effect_of (MsgTerm i) = Some (Settled i Terminated)"
| "effect_of (MsgRespond to data) = Some (Replied to data)"
| "effect_of (PublishMsg m) = Some (Published m None)"
| "effect_of (RequestMsg m t) = Some (Published m (Some t))"
| "effect_of _ = None"

definition effects :: "('x, 'w) world_scheme \<Rightarrow> effect list" where
  "effects w = List.map_filter effect_of (trace w)"

definition client_of :: "('x, 'app) session \<Rightarrow> client" where
  "client_of s = (case s of (c, w) \<Rightarrow>
     \<lparr>cl_started = conn_started c, cl_consumers = length (js_callbacks w),
      cl_subscriptions = length (core_callbacks w), cl_effects = effects w\<rparr>)"

lemma effects_trace: "trace w' = trace w \<Longrightarrow> effects w' = effects w"
  by (simp add: effects_def)

lemma effects_emit [simp]:
  "effects (emit x w) = effects w @ (case effect_of x of None \<Rightarrow> [] | Some e \<Rightarrow> [e])"
  by (simp add: effects_def map_filter_simps split: option.split)

lemma effects_counts [simp]:
  "effects (log_at l m w) = effects w"
  "effects (eventReceived c k w) = effects w" "effects (eventWithoutHandler c k w) = effects w"
  "effects (eventNotParsable c k w) = effects w" "effects (eventNak c k ms w) = effects w"
  "effects (eventAck c k ms w) = effects w" "effects (eventPublishSucceed c k ms w) = effects w"
  "effects (eventPublishFailed c k ms w) = effects w"
  by (simp_all add: log_at_def eventReceived_def eventWithoutHandler_def eventNotParsable_def
      eventNak_def eventAck_def eventPublishSucceed_def eventPublishFailed_def Let_def)

lemma effects_quiet:
  "trace w' = trace w @ u \<Longrightarrow> list_all (\<lambda>x. effect_of x = None) u \<Longrightarrow> effects w' = effects w"
  by (induction u arbitrary: w') (auto simp: effects_def map_filter_simps list_all_iff
      map_filter_def filter_empty_conv)

subsection \<open>Deliveries\<close>

lemma invoke_effects:
  "invoke_handler E c info hdr data h w = Some (r, t0, w') \<Longrightarrow> effects w' = effects w"
  by (erule invoke_handlerE) (simp add: effects_def map_filter_simps)

lemma settle_failure_effects:
  "effects (settle_failure c msg k ms e w) = effects w @ [Settled (jm_Id msg) (decide (Some e))]"
  by (simp add: settle_failure_def Let_def decide_def)

lemma finish_delivery_effects:
  assumes "finish_delivery E c msg k info t0 r w = Some w'"
  shows "effects w' = effects w @ [Settled (jm_Id msg) (decide r)]"
proof (cases r)
  case (Some e)
  with assms obtain ms w2 where n: "notifyEventHandlerFailed (jsc_errorCh c) info ms e
      (emit (SpanSetStatus StatusError (err_text E e)) (emit (SpanRecordError e) w)) = Some w2"
    and w': "w' = emit SpanEnd (settle_failure c msg k ms e w2)"
    by (auto simp: finish_delivery_def Let_def bind_eq_Some_conv)
  from effects_trace [OF notify_failed_frame(1) [OF n]] settle_failure_effects [of c msg k ms e w2]
  show ?thesis by (simp add: w' Some)
next
  case None
  with assms obtain ms w2 where n: "notifyEventHandlerSucceed (jsc_notificationCh c) info ms
      (emit (SpanSetStatus StatusOk '''') w) = Some w2"
    and w': "w' = emit SpanEnd (log_at LevelDebug ''message processed''
      (eventAck (jsc_name c) k ms (emit (MsgAck (jm_Id msg)) w2)))"
    by (auto simp: finish_delivery_def Let_def bind_eq_Some_conv)
  from effects_trace [OF notify_succeed_frame(1) [OF n]] show ?thesis by (simp add: w' None decide_def)
qed

lemma handleMessage_effects:
  assumes "handleMessage E c msg w = Some w'"
  shows "effects w' = effects w @ [Settled (jm_Id msg) (verdict E c msg w)]"
proof -
  define k where "k = routing_key_of_subject (jm_Subject msg)"
  define v where "v = eventReceived (jsc_name c) k w"
  define info where "info = js_delivery_info E c msg k (map_rank E (trace v) ''fromNATSHeaders'')"
  define u where "u = (if spec_ValidateCEHeaders E (di_Headers info) \<noteq> []
    then log_at LevelWarn ''incoming message has invalid CloudEvents headers'' v else v)"
  have u: "effects u = effects w" by (simp add: u_def v_def)
  have verdict: "verdict E c msg w = (case rkh_get E (map_rank E (trace v) ''get'') (jsc_handlers c) k of
      None \<Rightarrow> Terminated
    | Some h \<Rightarrow> (case invoke_handler E c info (jm_Headers msg) (jm_Data msg) h u of
        Some (r, _) \<Rightarrow> decide r | None \<Rightarrow> Terminated))"
    by (auto simp: verdict_def handler_result_def Let_def k_def v_def info_def u_def
        split: option.split)
  show ?thesis
  proof (cases "rkh_get E (map_rank E (trace v) ''get'') (jsc_handlers c) k")
    case None
    with assms show ?thesis
      by (simp add: verdict) (auto simp: handleMessage_def Let_def k_def v_def)
  next
    case (Some h)
    with assms have "handleDelivery E c h msg k v = Some w'"
      by (simp add: handleMessage_def Let_def k_def v_def)
    then obtain r t0 w1 where
      inv: "invoke_handler E c info (jm_Headers msg) (jm_Data msg) h u = Some (r, t0, w1)"
      and fin: "finish_delivery E c msg k info t0 r w1 = Some w'"
      by (auto simp: handleDelivery_def Let_def bind_eq_Some_conv info_def u_def js_delivery_info_def)
    from finish_delivery_effects [OF fin] invoke_effects [OF inv] u Some inv show ?thesis
      by (simp add: verdict)
  qed
qed

text \<open>Core NATS messages are answered at most once, and only where a reply is expected.\<close>

definition one_reply :: "string \<Rightarrow> bool \<Rightarrow> effect list \<Rightarrow> bool" where
  "one_reply to b es \<longleftrightarrow>
     es = [] \<and> (to = '''' \<or> \<not> b) \<or> to \<noteq> '''' \<and> (\<exists>data. es = [Replied to data])"

lemma respond_effects:
  "\<exists>es. one_reply (msg_Reply msg) b es \<and> effects (respond_error E msg e w) = effects w @ es"
  by (simp add: respond_error_def one_reply_def)

lemma finish_core_effects:
  assumes "finish_core E c msg k info t0 r w = Some w'"
  shows "\<exists>es. one_reply (msg_Reply msg) False es \<and> effects w' = effects w @ es"
proof (cases r)
  case (Some e)
  with assms obtain ms w2 where n: "notifyEventHandlerFailed (jsc_errorCh c) info ms e
      (emit (SpanSetStatus StatusError (err_text E e)) (emit (SpanRecordError e) w)) = Some w2"
    and w': "w' = emit SpanEnd (respond_error E msg e (eventNak (jsc_name c) k ms
      (log_at LevelError ''handler failed'' w2)))"
    by (auto simp: finish_core_def Let_def bind_eq_Some_conv)
  from effects_trace [OF notify_failed_frame(1) [OF n]]
    respond_effects [of msg _ E e "eventNak (jsc_name c) k ms (log_at LevelError ''handler failed'' w2)"]
  show ?thesis by (simp add: w')
next
  case None
  with assms obtain ms w2 where n: "notifyEventHandlerSucceed (jsc_notificationCh c) info ms
      (emit (SpanSetStatus StatusOk '''') w) = Some w2"
    and w': "w' = emit SpanEnd (log_at LevelDebug ''message processed'' (eventAck (jsc_name c) k ms w2))"
    by (auto simp: finish_core_def Let_def bind_eq_Some_conv)
  from effects_trace [OF notify_succeed_frame(1) [OF n]] show ?thesis
    by (simp add: w' one_reply_def)
qed

lemma handleCoreMessage_effects:
  assumes "handleCoreMessage E c msg k w = Some w'"
  shows "\<exists>es. one_reply (msg_Reply msg) False es \<and> effects w' = effects w @ es"
proof -
  let ?w0 = "eventReceived (jsc_name c) k w"
  show ?thesis
  proof (cases "rkh_get E (map_rank E (trace ?w0) ''get'') (jsc_handlers c) k")
    case None
    with assms show ?thesis by (auto simp: handleCoreMessage_def Let_def one_reply_def)
  next
    case (Some h)
    with assms obtain info r t0 w1 where
      inv: "invoke_handler E c info (msg_Header msg) (msg_Data msg) h ?w0 = Some (r, t0, w1)"
      and fin: "finish_core E c msg k info t0 r w1 = Some w'"
      by (auto simp: handleCoreMessage_def Let_def bind_eq_Some_conv)
    from finish_core_effects [OF fin] invoke_effects [OF inv] show ?thesis by simp
  qed
qed

lemma request_callback_effects:
  assumes "request_callback E c k name h msg w = Some w'"
  shows "\<exists>es. one_reply (msg_Reply msg) True es \<and> effects w' = effects w @ es"
proof -
  define info where "info = \<lparr>di_Destination = name, di_Source = msg_Subject msg, di_Key = k,
    di_Headers = fromNATSHeaders E (map_rank E (trace w) ''fromNATSHeaders'') (msg_Header msg)\<rparr>"
  obtain r t0 w1 where
    inv: "invoke_handler E c info (msg_Header msg) (msg_Data msg) h w = Some (r, t0, w1)"
    using assms by (auto simp: request_callback_def Let_def bind_eq_Some_conv info_def)
  show ?thesis
  proof (cases r)
    case (Inl e)
    define v where "v = log_at LevelError ''request handler failed''
      (emit (SpanSetStatus StatusError (err_text E e)) (emit (SpanRecordError e) w1))"
    have "w' = emit SpanEnd (respond_error E msg e v)"
      using assms inv Inl by (simp add: request_callback_def Let_def info_def v_def)
    with respond_effects [of msg _ E e v] invoke_effects [OF inv] show ?thesis by (simp add: v_def)
  next
    case (Inr b)
    with assms inv invoke_effects [OF inv] show ?thesis
      by (auto simp: request_callback_def Let_def info_def one_reply_def)
  qed
qed

lemma deliver_core_effects:
  "deliver_core E cb msg w = Some w' \<Longrightarrow>
   \<exists>es. one_reply (msg_Reply msg) (must_answer cb) es \<and> effects w' = effects w @ es"
  by (cases cb) (auto simp: deliver_core_def dest: handleCoreMessage_effects request_callback_effects)

subsection \<open>Publishing and starting\<close>

lemma effect_of_publish_call [simp]:
  "effect_of (publish_call fn m) = Some (Published m (publish_timeout fn))"
  by (cases fn) simp_all

lemma finish_publish_effects [simp]:
  "effects (snd (finish_publish E p k ms r w)) = effects w"
  by (simp add: finish_publish_def Let_def split: option.split)

text \<open>A message is published exactly if it may be, with the subject and the data it was given.\<close>

definition published_as :: "(string \<times> string) option \<Rightarrow> effect list \<Rightarrow> bool" where
  "published_as intent es \<longleftrightarrow>
     (case intent of
        None \<Rightarrow> es = []
      | Some (subject, data) \<Rightarrow>
          \<exists>m t. es = [Published m t] \<and> msg_Subject m = subject \<and> msg_Data m = data)"

lemma Publish_effects:
  assumes "Publish E p ctx k marshal msg headers w = Some (r, w')"
  shows "\<exists>es. published_as (publish_intent E p k headers (marshal msg)) es \<and> effects w' = effects w @ es"
  using assms by (cases rule: Publish_path) (simp_all add: published_as_def)

lemma PublishRaw_effects:
  "\<exists>es. published_as (raw_intent E (o_publisher a) k payload) es \<and>
     effects (snd (PublishRaw E a k payload hs w)) = effects w @ es"
  by (simp add: PublishRaw_def Let_def call_publishFn_eq published_as_def raw_intent_def
      split: option.split)

lemma register_effects: "effects (snd (register_collectors E cs w)) = effects w"
proof (induction cs arbitrary: w)
  case Nil
  then show ?case by simp
next
  case (Cons d ds)
  from Cons.IH [of "emit (RegisterCollector d) w"] show ?case
    by (simp add: perform_def split: option.split)
qed

lemma InitMetrics_effects: "effects (snd (InitMetrics E opts w)) = effects w"
  unfolding InitMetrics_def Let_def register_effects by (simp add: effects_def)

lemma Close_effects: "effects (snd (Close E c w)) = effects w"
proof -
  have "\<exists>u. trace (snd (Close E c w)) = trace w @ u \<and> list_all (\<lambda>x. effect_of x = None) u"
    by (auto simp: Close_eq Let_def list_all_iff)
  then show ?thesis using effects_quiet by blast
qed

lemma setup_call_quiet: "setup_call b x \<Longrightarrow> effect_of x = None"
  by (cases x) auto

lemma run_setups_client:
  assumes "\<forall>f \<in> set fs. pkg_setup E (snd f)" and "run_setups E fs c w = Some (r, c', w')"
  shows "effects w' = effects w \<and> js_callbacks w' = js_callbacks w \<and>
    length (core_callbacks w) \<le> length (core_callbacks w') \<and> conn_started c' = conn_started c"
proof -
  obtain u where "trace w' = trace w @ u" "list_all (setup_call (conn_collectMode c)) u"
    using pkg.run_calls [OF assms] by blast
  then have "effects w' = effects w"
    by (intro effects_quiet) (auto simp: list_all_iff intro: setup_call_quiet)
  with pkg.run_session [OF assms] pkg.run_subscribes [OF assms] show ?thesis
    by (auto simp: same_session_def)
qed

text \<open>A group creates at most one consumer, within bounds, and registers no more than that.\<close>

lemma group_js_config_creatable:
  assumes "g \<noteq> []"
  shows "creatable E (Created (cc_stream (hd g)) (group_js_config E d (hd g) g))"
proof -
  obtain first rest where g: "g = first # rest" using assms by (cases g) simp_all
  let ?cfg = "group_js_config E d (hd g) g"
  have f: "filters ?cfg = map (\<lambda>cfg. filterSubject E (cc_stream cfg) (cc_routingKey cfg)) g"
    "jc_FilterSubjects ?cfg = [] \<or> jc_FilterSubject ?cfg = '''' \<and> 2 \<le> length (jc_FilterSubjects ?cfg)"
    "0 \<le> jc_MaxDeliver ?cfg"
    by (cases rest; simp add: g filters_def group_js_config_def Let_def)+
  have "\<exists>k. hd (filters ?cfg) = filterSubject E (cc_stream (hd g)) k"
    unfolding f(1) by (auto simp: g)
  moreover have "\<forall>s \<in> set (filters ?cfg). \<exists>s' k. s = filterSubject E s' k"
    unfolding f(1) by auto
  ultimately show ?thesis using f(2,3) unfolding creatable.simps filtered_def by blast
qed

lemma start_group_client:
  assumes "start_group E g c w = Some (r, c', w')"
  shows "\<exists>es. effects w' = effects w @ es \<and> list_all (creatable E) es \<and>
    length (js_callbacks w) \<le> length (js_callbacks w') \<and>
    length (js_callbacks w') \<le> length (js_callbacks w) + length es \<and>
    (r = None \<longrightarrow> length (js_callbacks w') = length (js_callbacks w) + length es)"
proof -
  note res = start_group_result [OF assms]
  obtain u where u: "trace w' = trace w @ u"
    "creations u = [(cc_stream (hd g), group_js_config E (conn_consumerDefaults c) (hd g) g)] \<or>
     r \<noteq> None \<and> creations u = []" using res(7) by blast
  obtain u' where "trace w' = trace w @ u'" "list_all pending_call u'"
    using start_group_calls [OF assms] by blast
  with u(1) have "list_all pending_call u" by simp
  then have "List.map_filter effect_of u = map (\<lambda>(s, cfg). Created s cfg) (creations u)"
  proof (induction u)
    case Nil
    then show ?case by (simp add: map_filter_simps)
  next
    case (Cons x u)
    then show ?case by (cases x) (simp_all add: map_filter_simps)
  qed
  with u(1) have "effects w' = effects w @ map (\<lambda>(s, cfg). Created s cfg) (creations u)"
    by (simp add: effects_def)
  with u(2) res(4,6) group_js_config_creatable [OF res(4)] show ?thesis
    by (intro exI [of _ "map (\<lambda>(s, cfg). Created s cfg) (creations u)"]) (auto split: if_splits)
qed

lemma start_list_client:
  assumes "start_list E gs c w = Some (r, c', w')"
  shows "\<exists>es. effects w' = effects w @ es \<and> list_all (creatable E) es \<and>
    length (js_callbacks w) \<le> length (js_callbacks w') \<and>
    length (js_callbacks w') \<le> length (js_callbacks w) + length es \<and>
    (r = None \<longrightarrow> length (js_callbacks w') = length (js_callbacks w) + length es)"
  using assms
proof (induction gs arbitrary: c w)
  case Nil
  then show ?case by (intro exI [of _ "[]"]) simp
next
  case (Cons g gs)
  then obtain r1 c1 w1 where g: "start_group E g c w = Some (r1, c1, w1)"
    by (auto simp: bind_eq_Some_conv)
  from start_group_client [OF g] obtain es where
    es: "effects w1 = effects w @ es" "list_all (creatable E) es"
      "length (js_callbacks w) \<le> length (js_callbacks w1)"
      "length (js_callbacks w1) \<le> length (js_callbacks w) + length es"
      "r1 = None \<longrightarrow> length (js_callbacks w1) = length (js_callbacks w) + length es" by blast
  show ?case
  proof (cases r1)
    case (Some e)
    with Cons.prems g es show ?thesis by auto
  next
    case None
    with Cons.prems g have "start_list E gs c1 w1 = Some (r, c', w')" by simp
    from Cons.IH [OF this] obtain fs where
      "effects w' = effects w1 @ fs" "list_all (creatable E) fs"
      "length (js_callbacks w1) \<le> length (js_callbacks w')"
      "length (js_callbacks w') \<le> length (js_callbacks w1) + length fs"
      "r = None \<longrightarrow> length (js_callbacks w') = length (js_callbacks w1) + length fs" by blast
    with es None show ?thesis by (intro exI [of _ "es @ fs"]) simp
  qed
qed

lemma startPending_client:
  assumes "startPendingJSConsumers E c w = Some (r, c', w')"
  shows "\<exists>es. effects w' = effects w @ es \<and> list_all (creatable E) es \<and>
    length (js_callbacks w) \<le> length (js_callbacks w') \<and>
    length (js_callbacks w') \<le> length (js_callbacks w) + length es \<and>
    (r = None \<longrightarrow> length (js_callbacks w') = length (js_callbacks w) + length es) \<and>
    core_callbacks w' = core_callbacks w \<and> conn_started c' = conn_started c"
proof -
  obtain c1 where run: "start_list E (groups_of (conn_pendingJSConsumers c)) c w = Some (r, c1, w')"
    using assms by (auto simp: startPendingJSConsumers_eq bind_eq_Some_conv)
  have "conn_started c' = conn_started c" by (rule startPending_result [OF assms]) simp
  with start_list_client [OF run] start_list_core [OF run] show ?thesis by simp
qed

lemma Start_client:
  assumes "\<forall>f \<in> set fs. pkg_setup E (snd f)" and "\<not> conn_started c" and "\<not> conn_collectMode c"
    and "Start E fs c w = Some (r, c', w')"
  shows "\<exists>es. effects w' = effects w @ es \<and> list_all (creatable E) es \<and>
    length (js_callbacks w) \<le> length (js_callbacks w') \<and>
    length (js_callbacks w') \<le> length (js_callbacks w) + length es \<and>
    length (core_callbacks w) \<le> length (core_callbacks w') \<and>
    (conn_started c' \<longrightarrow> length (js_callbacks w') = length (js_callbacks w) + length es)"
proof -
  have con: "effects (after_connect c w) = effects w"
    "js_callbacks (after_connect c w) = js_callbacks w"
    "core_callbacks (after_connect c w) = core_callbacks w"
    "conn_started (connected c) = conn_started c"
    by (simp_all add: after_connect_def connected_def)
  from assms(2-4) show ?thesis
  proof (cases rule: Start_live)
    case (Setup w1)
    with run_setups_client [OF assms(1) Setup(3)] con show ?thesis by simp
  next
    case (Pending c1 w1 w2)
    with run_setups_client [OF assms(1) Pending(3)] startPending_client [OF Pending(4)] con assms(2)
    show ?thesis by auto
  next
    case (Started c1 w1 c2 w2)
    with run_setups_client [OF assms(1) Started(3)] startPending_client [OF Started(4)] con
    show ?thesis by auto
  qed (simp_all add: assms(2))
qed

section \<open>Refinement\<close>

text \<open>A step that registers nothing and leaves the connection alone, by the effects it has.\<close>

lemma client_kept:
  assumes "js_callbacks w' = js_callbacks w" and "core_callbacks w' = core_callbacks w"
    and "effects w' = effects w @ es"
  shows "client_of (c, w') = (client_of (c, w))\<lparr>cl_effects := cl_effects (client_of (c, w)) @ es\<rparr>"
  using assms by (simp add: client_of_def)

lemma client_same:
  assumes "js_callbacks w' = js_callbacks w" and "core_callbacks w' = core_callbacks w"
    and "effects w' = effects w"
  shows "client_of (c, w') = client_of (c, w)"
  using assms by (simp add: client_of_def)

lemmas keeps_callbacks = keeps_def [THEN iffD1, THEN conjunct2, THEN conjunct1]
  keeps_def [THEN iffD1, THEN conjunct2, THEN conjunct2, THEN conjunct1]

lemma client_publishes:
  assumes "keeps w w'" and "published_as intent es" and "effects w' = effects w @ es"
  shows "client_step E (client_of (c, w)) (PublishCalled intent) (client_of (c, w'))"
proof (cases intent)
  case None
  with assms(2,3) client_same [OF keeps_callbacks [OF assms(1)]] show ?thesis
    by (simp add: published_as_def refusing)
next
  case (Some p)
  with assms(2) obtain m t where "es = [Published m t]" "p = (msg_Subject m, msg_Data m)"
    by (auto simp: published_as_def)
  with client_kept [OF keeps_callbacks [OF assms(1)] assms(3)] Some publishing [of m _ _ E "client_of (c, w)" t]
  show ?thesis by simp
qed

lemma client_replies:
  assumes "keeps w w'" and "one_reply to b es" and "effects w' = effects w @ es"
    and "core_callbacks w \<noteq> []"
  shows "client_step E (client_of (c, w)) (RequestDelivered to b) (client_of (c, w'))"
proof -
  have subs: "0 < cl_subscriptions (client_of (c, w))" using assms(4) by (simp add: client_of_def)
  from assms(2) consider "es = []" "to = '''' \<or> \<not> b" | data where "to \<noteq> ''''" "es = [Replied to data]"
    by (auto simp: one_reply_def)
  then show ?thesis
  proof cases
    case 1
    with ignoring [OF subs 1(2)] client_same [OF keeps_callbacks [OF assms(1)]] assms(3)
    show ?thesis by simp
  next
    case 2
    with replying [OF subs 2(1)] client_kept [OF keeps_callbacks [OF assms(1)] assms(3)]
    show ?thesis by simp
  qed
qed

lemma client_idles:
  assumes "keeps w w'" and "effects w' = effects w"
  shows "client_step E (client_of (c, w)) OtherCall (client_of (c, w'))"
  using client_same [OF keeps_callbacks [OF assms(1)] assms(2)] by (simp add: idle)

lemma client_of_start:
  assumes "\<forall>f \<in> set fs. safe_setup E (snd f)" and "Start E fs c w = Some (r, c', w')"
    and "session_ok (c, w)"
  shows "client_step E (client_of (c, w)) StartCalled (client_of (c', w'))"
proof (cases "conn_started c")
  case True
  with assms(2) show ?thesis by (auto simp: Start_def client_of_def intro: restarting)
next
  case False
  have pkg: "\<forall>f \<in> set fs. pkg_setup E (snd f)" using assms(1) by (simp add: safe_setup_def)
  have "\<not> conn_collectMode c" using assms(3) by (simp add: session_ok_def)
  from Start_client [OF pkg False this assms(2)] obtain es where
    "effects w' = effects w @ es" "list_all (creatable E) es"
    "length (js_callbacks w) \<le> length (js_callbacks w')"
    "length (js_callbacks w') \<le> length (js_callbacks w) + length es"
    "length (core_callbacks w) \<le> length (core_callbacks w')"
    "conn_started c' \<longrightarrow> length (js_callbacks w') = length (js_callbacks w) + length es" by blast
  with starting [of "client_of (c, w)" "length (js_callbacks w')" es "length (core_callbacks w')" E
      "conn_started c'"] False
  show ?thesis by (simp add: client_of_def)
qed

lemma client_of_step:
  assumes "step E s l s'" and "session_ok s"
  shows "client_step E (client_of s) l (client_of s')"
  using assms
proof (induction rule: step.induct)
  case (start fs c w r c' w')
  then show ?case by (rule client_of_start)
next
  case (collect gs service w tp w' c)
  from collect(1,2) obtain u where "trace w' = trace w @ u" "list_all (setup_call True) u"
    "core_callbacks w' = core_callbacks w" "js_callbacks w' = js_callbacks w"
    by (rule CollectTopology_frame)
  then have "client_of (c, w') = client_of (c, w)"
    by (intro client_same effects_quiet) (auto simp: list_all_iff intro: setup_call_quiet)
  then show ?case by (simp add: collecting)
next
  case (deliver_js s cfg consumer w msg w' c)
  have "0 < cl_consumers (client_of (c, w))" using deliver_js(1) by (auto simp: client_of_def)
  from settling [OF this] show ?case
    using client_kept [OF keeps_callbacks [OF keeps_handleMessage [OF deliver_js(2)]]
        handleMessage_effects [OF deliver_js(2)]] by simp
next
  case (deliver_core subject cb w msg w' c)
  obtain es where "one_reply (msg_Reply msg) (must_answer cb) es" "effects w' = effects w @ es"
    using deliver_core_effects [OF deliver_core(2)] by blast
  moreover have "core_callbacks w \<noteq> []" using deliver_core(1) by auto
  ultimately show ?case
    by (rule client_replies [OF keeps_deliver_core [OF deliver_core(2)]])
next
  case (publish w pid ctx k m headers r w' c)
  then show ?case
    using Publish_effects [OF publish(1)] client_publishes [OF keeps_Publish [OF publish(1)]] by blast
next
  case (publish_raw w pid k payload hs r w' c)
  let ?a = "NewOutboxRawPublisher (pubs w pid)"
  have "o_publisher ?a = pubs w pid" by (simp add: NewOutboxRawPublisher_def)
  with publish_raw PublishRaw_effects [of E ?a k payload hs w]
    client_publishes [OF keeps_PublishRaw [of w E ?a k payload hs]]
  show ?case by auto
next
  case (close c w r w')
  with client_idles [OF keeps_Close [of w E c]] Close_effects [of E c w] show ?case by simp
next
  case (metrics opts w r w' c)
  with client_idles [OF keeps_InitMetrics [of w E opts]] InitMetrics_effects [of E opts w]
  show ?case by simp
next
  case (application w w' c)
  then have "client_of (c, w') = client_of (c, w)"
    by (auto simp: app_change_def client_of_def effects_def)
  then show ?case by (simp add: idle)
qed

lemma client_of_run: "session_run E ls s \<Longrightarrow> client_run E ls (client_of s)"
proof (induction rule: session_run.induct)
  case (init service url opts c w)
  then have "client_of (c, w)
      = \<lparr>cl_started = False, cl_consumers = 0, cl_subscriptions = 0, cl_effects = []\<rparr>"
    by (auto simp: NewConnection_def newConnection_def zero_connection_def fresh_world_def
        client_of_def effects_def map_filter_simps split: if_splits)
  with client_run.init [of E] show ?case by simp
next
  case (step ls s l s')
  then show ?case
    using client_of_step reachable_session_ok [OF session_run_reachable] client_run.step by blast
qed

lemma views_of_effects:
  "List.map_filter settled_by (effects w) = settlements (trace w)"
  "List.map_filter published_by (effects w)
     = map (\<lambda>(m, t). (msg_Subject m, msg_Data m)) (publications (trace w))"
proof -
  have "List.map_filter settled_by (List.map_filter effect_of t) = settlements t \<and>
      List.map_filter published_by (List.map_filter effect_of t)
        = map (\<lambda>(m, t). (msg_Subject m, msg_Data m)) (publications t)" for t :: "'a call list"
  proof (induction t)
    case Nil
    then show ?case by (simp add: map_filter_simps settlements_def publications_def)
  next
    case (Cons x t)
    then show ?case
      by (cases x) (simp_all add: map_filter_simps settlements_def publications_def)
  qed
  then show "List.map_filter settled_by (effects w) = settlements (trace w)"
    "List.map_filter published_by (effects w)
       = map (\<lambda>(m, t). (msg_Subject m, msg_Data m)) (publications (trace w))"
    by (simp_all add: effects_def)
qed

text \<open>
  C7: A session implements the abstract client. Seen from outside, every run of a session is a run of
  the client with the same labels, and every step it can take next is the step of the client with that
  label: starting creates consumers and registers as many callbacks if it succeeds, and has no other
  effect; a delivered JetStream message is settled exactly once, under its own identity and with the
  settlement its handler's result calls for; a Core NATS message is answered at most once and only on
  its own reply subject, and exactly once by a request-response handler; a message that may be
  published is published exactly once, with its subject and its data; and nothing else has an effect.
  So along the whole run the settlements are exactly those that the deliveries called for, and the
  publications exactly those that were asked for, in order.
\<close>

theorem session_refines_client:
  assumes "session_run E ls (c, w)"
  shows "client_run E ls (client_of (c, w)) \<and>
    (\<forall>l s'. step E (c, w) l s' \<longrightarrow> client_step E (client_of (c, w)) l (client_of s')) \<and>
    settlements (trace w) = List.map_filter delivery_of ls \<and>
    map (\<lambda>(m, t). (msg_Subject m, msg_Data m)) (publications (trace w)) = List.map_filter intent_of ls"
proof -
  note run = client_of_run [OF assms]
  have "session_ok (c, w)" by (rule reachable_session_ok [OF session_run_reachable [OF assms]])
  moreover have "cl_effects (client_of (c, w)) = effects w" by (simp add: client_of_def)
  ultimately show ?thesis
    using run client_run_settles [OF run] client_of_step views_of_effects [of w] by auto
qed

theorem session_refines_client_witness:
  "\<exists>ls c (w :: (unit, nat) nworld). session_run demo_ext ls (c, w) \<and> conn_started c \<and>
     client_run demo_ext ls (client_of (c, w)) \<and>
     settlements (trace w) = List.map_filter delivery_of ls"
proof -
  obtain c and w :: "(unit, nat) nworld" where r: "reachable demo_ext (c, w)" "conn_started c"
    using demo_reachable by blast
  obtain ls where run: "session_run demo_ext ls (c, w)" using reachable_session_run [OF r(1)] by blast
  from session_refines_client [OF run] run r(2) show ?thesis by blast
qed










end
