(* ===== verification/Progress.thy ===== *)
theory Progress
  imports Lifecycle
begin

text \<open>
  Progress of \<open>Start\<close> (\<open>connection.go\<close>): with the setup functions of the package, other than a
  \<open>WithLogger\<close> without a logger, it always returns, it succeeds whenever the dry run of \<open>topology_export.go\<close> does and the broker accepts, and what a
  failed attempt leaves behind stays there for the next one. The contract of setup functions is
  extended by two laws of progress (locale \<open>live_setups\<close>).
\<close>

section \<open>Setup functions that make progress\<close>

text \<open>A broker that accepts every call.\<close>

definition accepting :: "'x ext \<Rightarrow> bool" where
  "accepting E \<longleftrightarrow> (\<forall>t x. answer E t x = None)"

text \<open>
  On a connected connection, and while collecting, a setup function does not panic; and if the broker
  accepts, it succeeds wherever its dry run does, with the same declarations.
\<close>

locale live_setups = lawful_setups P for P :: "('x, 'app) Setup \<Rightarrow> bool" +
  fixes accepts :: bool
  assumes defined: "P f \<Longrightarrow> conn_js c \<or> conn_collectMode c \<Longrightarrow> \<exists>r c' w'. f c w = Some (r, c', w')"
    and starts: "P f \<Longrightarrow> accepts \<Longrightarrow> same_declarations c d \<Longrightarrow> conn_js c \<Longrightarrow>
      conn_collectMode d \<Longrightarrow> f d v = Some (None, d', v') \<Longrightarrow>
      \<exists>c' w'. f c w = Some (None, c', w') \<and> same_declarations c' d'"
begin

lemma run_defined:
  "\<forall>f \<in> set fs. P (snd f) \<Longrightarrow> conn_js c \<or> conn_collectMode c \<Longrightarrow>
   \<exists>r c' w'. run_setups E fs c w = Some (r, c', w')"
proof (induction fs arbitrary: c w)
  case Nil
  then show ?case by simp
next
  case (Cons f fs)
  then have P: "P (snd f)" by simp
  from defined [OF P Cons.prems(2)] obtain r c1 w1 where f: "snd f c w = Some (r, c1, w1)" by blast
  from session [OF P f] Cons.prems(2) have "conn_js c1 \<or> conn_collectMode c1"
    by (simp add: same_session_def)
  with Cons f show ?case by (cases r) auto
qed

lemma run_starts:
  "\<forall>f \<in> set fs. P (snd f) \<Longrightarrow> accepts \<Longrightarrow> same_declarations c d \<Longrightarrow> conn_js c \<Longrightarrow>
   conn_collectMode d \<Longrightarrow> collect_setups (map snd fs) d v = Some (None, d', v') \<Longrightarrow>
   \<exists>c' w'. run_setups E fs c w = Some (None, c', w') \<and> same_declarations c' d'"
proof (induction fs arbitrary: c d w v)
  case Nil
  then show ?case by simp
next
  case (Cons f fs)
  then have P: "P (snd f)" by simp
  from Cons.prems(6) obtain d1 v1 where f: "snd f d v = Some (None, d1, v1)"
    and rest: "collect_setups (map snd fs) d1 v1 = Some (None, d', v')"
    by (auto simp: bind_eq_Some_conv split: option.splits)
  from starts [OF P Cons.prems(2-5) f] obtain c1 w1 where
    c1: "snd f c w = Some (None, c1, w1)" "same_declarations c1 d1" by blast
  have "conn_js c1" "conn_collectMode d1"
    using session [OF P c1(1)] session [OF P f] Cons.prems(4,5) by (simp_all add: same_session_def)
  from Cons.IH [OF _ Cons.prems(2) c1(2) this rest] Cons.prems(1) c1(1) show ?case by simp
qed

end

text \<open>The laws, for the package's setup functions.\<close>

lemma config_setup_defined:
  "config_setup E f \<Longrightarrow> f \<noteq> WithLogger None \<Longrightarrow> \<exists>r c'. f c w = Some (r, c', w)"
  by (cases rule: config_setup.cases, assumption) (auto simp: config_setup_defs bind_eq_Some_conv)

lemma pkg_setup_defined:
  assumes "pkg_setup E f" and "f \<noteq> WithLogger None" and "conn_js c \<or> conn_collectMode c"
  shows "\<exists>r c' w'. f c w = Some (r, c', w')"
  using assms(1)
proof cases
  case config
  then show ?thesis using config_setup_defined assms(2) by blast
next
  case (stream opts e t h st k)
  then show ?thesis by (simp add: stream_consumer_def split: sum.split)
next
  case (core cb what t k)
  then show ?thesis
    by (auto simp: core_setup_def subscribe_def perform_def Let_def split: option.split)
next
  case (response t target k)
  then show ?thesis by (simp add: response_setup_def)
next
  case (stream_publisher st pid)
  with assms(3) show ?thesis
    by (auto simp: StreamPublisher_def ensureStream_eq Let_def split: option.split)
next
  case (service_publisher target pid)
  then show ?thesis by (simp add: ServicePublisher_def Let_def)
qed

lemma pkg_setup_starts:
  assumes "pkg_setup E f" and "accepting E" and "same_declarations c d" and "conn_js c"
    and "conn_collectMode d" and "f d v = Some (None, d', v')"
  shows "\<exists>c' w'. f c w = Some (None, c', w') \<and> same_declarations c' d'"
  using assms(1)
proof cases
  case config
  obtain c' where c': "f c w = Some (None, c', w)"
    using config_setup_uniform [OF config assms(6)] by blast
  with config_setup_frame [OF config assms(6)] config_setup_frame [OF config c'] assms(3)
  show ?thesis by (auto simp: same_declarations_def)
next
  case (stream opts e t h st k)
  with assms(3,6) show ?thesis
    by (auto simp: stream_consumer_def same_declarations_def split: sum.splits)
next
  case (core cb what t k)
  have "\<exists>c' w'. f c w = Some (None, c', w')"
    using assms(2) by (simp add: core core_setup_def subscribe_def perform_def Let_def accepting_def)
  then obtain c' w' where c': "f c w = Some (None, c', w')" by blast
  from core_setup_succeeds [OF assms(6) [unfolded core]] core_setup_succeeds [OF c' [unfolded core]]
    assms(3) c' show ?thesis
    by (auto simp: same_declarations_def)
next
  case (response t target k)
  with assms(3,6) show ?thesis
    by (auto simp: response_setup_def same_declarations_def)
next
  case (stream_publisher st pid)
  have "\<exists>c' w'. f c w = Some (None, c', w')"
    using assms(2,4)
    by (simp add: stream_publisher StreamPublisher_def ensureStream_eq Let_def accepting_def)
  then obtain c' w' where c': "f c w = Some (None, c', w')" by blast
  from StreamPublisher_succeeds [OF assms(6) [unfolded stream_publisher]]
    StreamPublisher_succeeds [OF c' [unfolded stream_publisher]] assms(3) c' show ?thesis
    by (auto simp: same_declarations_def)
next
  case (service_publisher target pid)
  with assms(3,6) show ?thesis
    by (auto simp: ServicePublisher_def Let_def same_declarations_def)
qed

text \<open>A \<open>nil\<close> logger given to \<open>WithLogger\<close> makes it panic; every other setup function is calm.\<close>

definition calm_setup :: "'x ext \<Rightarrow> ('x, 'app) Setup \<Rightarrow> bool" where
  "calm_setup E f \<longleftrightarrow> pkg_setup E f \<and> f \<noteq> WithLogger None"

interpretation live: live_setups "calm_setup E" "accepting E" for E :: "'x ext"
proof (intro live_setups.intro live_setups_axioms.intro)
  show "lawful_setups (calm_setup E :: ('x, 'app) Setup \<Rightarrow> bool)"
    by (rule pkg.restrict [where E = E]) (simp add: calm_setup_def)
qed (unfold calm_setup_def, blast intro: pkg_setup_defined, meson pkg_setup_starts)

section \<open>Declarations\<close>

text \<open>What a setup function declares depends on the name of the service only.\<close>

definition declared :: "(string \<Rightarrow> endpoint list) \<Rightarrow> ('x, 'app) Setup \<Rightarrow> bool" where
  "declared eps f \<longleftrightarrow>
     (\<forall>c w c' w'. f c w = Some (None, c', w') \<longrightarrow>
        conn_serviceName c' = conn_serviceName c \<and>
        conn_topology c' = (conn_topology c)
          \<lparr>tp_Endpoints := tp_Endpoints (conn_topology c) @ eps (conn_serviceName c)\<rparr>)"

lemma declared_addEndpoint:
  assumes "\<And>c w c' w'. f c w = Some (None, c', w') \<Longrightarrow>
    \<exists>c0. c' = addEndpoint (ep (conn_serviceName c)) c0 \<and> conn_serviceName c0 = conn_serviceName c \<and>
      conn_topology c0 = conn_topology c"
  shows "declared (\<lambda>s. [ep s]) f"
  using assms by (fastforce simp: declared_def)

lemma pkg_setup_declared:
  assumes "pkg_setup E f"
  shows "\<exists>eps. declared eps f"
  using assms
proof cases
  case config
  then have "declared (\<lambda>_. []) f"
    by (auto simp: declared_def config_setup_frame)
  then show ?thesis by blast
next
  case (stream opts e t h st k)
  have "declared (\<lambda>s. case newConsumerConfig E (streamName E st) k e h s opts of
      Inl _ \<Rightarrow> []
    | Inr cfg \<Rightarrow> [\<lparr>ep_Direction = DirectionConsume, ep_Pattern = stream_pattern st,
         ep_ExchangeName = streamName E st, ep_ExchangeKind = ExchangeTopic,
         ep_QueueName = cc_consumerName cfg, ep_RoutingKey = k, ep_MessageType = t,
         ep_Ephemeral = e\<rparr>]) f"
    by (auto simp: declared_def stream stream_consumer_def split: sum.splits)
  then show ?thesis by blast
next
  case (core cb what t k)
  have "declared (\<lambda>s. [\<lparr>ep_Direction = DirectionConsume, ep_Pattern = PatternServiceRequest,
     ep_ExchangeName = s, ep_ExchangeKind = ExchangeDirect, ep_QueueName = s, ep_RoutingKey = k,
     ep_MessageType = t, ep_Ephemeral = False\<rparr>]) f"
    unfolding core(1) by (rule declared_addEndpoint) (auto dest!: core_setup_succeeds)
  then show ?thesis by blast
next
  case (response t target k)
  have "declared (\<lambda>s. [\<lparr>ep_Direction = DirectionConsume, ep_Pattern = PatternServiceResponse,
     ep_ExchangeName = target, ep_ExchangeKind = ExchangeHeaders, ep_QueueName = s,
     ep_RoutingKey = k, ep_MessageType = t, ep_Ephemeral = False\<rparr>]) f"
    unfolding response by (rule declared_addEndpoint) (auto simp: response_setup_def)
  then show ?thesis by blast
next
  case (stream_publisher st pid)
  have "declared (\<lambda>s. [\<lparr>ep_Direction = DirectionPublish, ep_Pattern = stream_pattern st,
     ep_ExchangeName = streamName E st, ep_ExchangeKind = ExchangeTopic, ep_QueueName = '''',
     ep_RoutingKey = '''', ep_MessageType = '''', ep_Ephemeral = False\<rparr>]) f"
    unfolding stream_publisher by (rule declared_addEndpoint) (auto dest!: StreamPublisher_succeeds)
  then show ?thesis by blast
next
  case (service_publisher target pid)
  have "declared (\<lambda>s. [\<lparr>ep_Direction = DirectionPublish, ep_Pattern = PatternServiceRequest,
     ep_ExchangeName = target, ep_ExchangeKind = ExchangeDirect, ep_QueueName = '''',
     ep_RoutingKey = '''', ep_MessageType = '''', ep_Ephemeral = False\<rparr>]) f"
    unfolding service_publisher
    by (rule declared_addEndpoint) (auto simp: ServicePublisher_def Let_def)
  then show ?thesis by blast
qed

text \<open>So a list of setup functions declares the same endpoints in every run, dry or not.\<close>

lemma run_setups_declared:
  assumes "\<forall>f \<in> set fs. pkg_setup E (snd f)"
  shows "\<exists>eps. \<forall>c w c' w'.
    (run_setups E fs c w = Some (None, c', w') \<or> collect_setups (map snd fs) c w = Some (None, c', w')) \<longrightarrow>
    conn_topology c' = (conn_topology c)
      \<lparr>tp_Endpoints := tp_Endpoints (conn_topology c) @ eps (conn_serviceName c)\<rparr>"
  using assms
proof (induction fs)
  case Nil
  show ?case by (rule exI [of _ "\<lambda>_. []"]) auto
next
  case (Cons f fs)
  have "\<forall>f \<in> set fs. pkg_setup E (snd f)" using Cons.prems by simp
  from Cons.IH [OF this] obtain eps where eps: "\<forall>c w c' w'.
      run_setups E fs c w = Some (None, c', w') \<or> collect_setups (map snd fs) c w = Some (None, c', w') \<longrightarrow>
      conn_topology c' = (conn_topology c)
        \<lparr>tp_Endpoints := tp_Endpoints (conn_topology c) @ eps (conn_serviceName c)\<rparr>" ..
  from Cons.prems pkg_setup_declared obtain ep where ep: "declared ep (snd f)" by fastforce
  show ?case
  proof (intro exI [of _ "\<lambda>s. ep s @ eps s"] allI impI)
    fix c w c' w'
    assume "run_setups E (f # fs) c w = Some (None, c', w') \<or>
      collect_setups (map snd (f # fs)) c w = Some (None, c', w')"
    then obtain c1 w1 where "snd f c w = Some (None, c1, w1)"
      and rest: "run_setups E fs c1 w1 = Some (None, c', w') \<or>
        collect_setups (map snd fs) c1 w1 = Some (None, c', w')"
      by (auto simp: bind_eq_Some_conv split: option.splits)
    with ep have "conn_serviceName c1 = conn_serviceName c"
      "conn_topology c1 = (conn_topology c)
        \<lparr>tp_Endpoints := tp_Endpoints (conn_topology c) @ ep (conn_serviceName c)\<rparr>"
      by (auto simp: declared_def)
    with eps [rule_format, OF rest] show "conn_topology c' = (conn_topology c)\<lparr>tp_Endpoints :=
        tp_Endpoints (conn_topology c) @ ep (conn_serviceName c) @ eps (conn_serviceName c)\<rparr>"
      by simp
  qed
qed

text \<open>Whether a dry run succeeds depends on the name of the service only.\<close>

lemma pkg_setup_dry:
  assumes "pkg_setup E f" and "f c w = Some (None, c', w')" and "conn_collectMode d"
    and "conn_serviceName d = conn_serviceName c"
  shows "\<exists>d' v'. f d v = Some (None, d', v')"
  using assms(1)
proof cases
  case config
  then show ?thesis using config_setup_uniform [OF config assms(2)] by blast
next
  case (stream opts e t h st k)
  with assms(2,4) show ?thesis by (auto simp: stream_consumer_def split: sum.splits)
next
  case (core cb what t k)
  then show ?thesis by (simp add: core_setup_def assms(3))
next
  case (response t target k)
  then show ?thesis by (simp add: response_setup_def)
next
  case (stream_publisher st pid)
  then show ?thesis by (simp add: StreamPublisher_def Let_def assms(3))
next
  case (service_publisher target pid)
  then show ?thesis by (simp add: ServicePublisher_def Let_def)
qed

lemma run_setups_dry:
  assumes "\<forall>f \<in> set fs. pkg_setup E (snd f)" and "run_setups E fs c w = Some (None, c', w')"
    and "conn_collectMode d" and "conn_serviceName d = conn_serviceName c"
  shows "\<exists>d' v'. collect_setups (map snd fs) d v = Some (None, d', v')"
  using assms
proof (induction fs arbitrary: c w d v)
  case Nil
  then show ?case by simp
next
  case (Cons f fs)
  from Cons.prems(1) have P: "pkg_setup E (snd f)" by simp
  from Cons.prems(2) obtain c1 w1 where f: "snd f c w = Some (None, c1, w1)"
    and rest: "run_setups E fs c1 w1 = Some (None, c', w')"
    by (auto simp: bind_eq_Some_conv split: option.splits)
  from pkg_setup_dry [OF P f Cons.prems(3,4)] obtain d1 v1 where
    d1: "snd f d v = Some (None, d1, v1)" by blast
  have "conn_collectMode d1" "conn_serviceName d1 = conn_serviceName c1"
    using pkg.session [OF P d1] pkg.session [OF P f] Cons.prems(3,4)
    by (simp_all add: same_session_def)
  from Cons.IH [OF _ rest this] Cons.prems(1) d1 show ?case by simp
qed

text \<open>What a run leaves of the topology, also when it fails.\<close>

context lawful_setups
begin

lemma run_topology:
  "\<forall>f \<in> set fs. P (snd f) \<Longrightarrow> run_setups E fs c w = Some (r, c', w') \<Longrightarrow>
   tp_Transport (conn_topology c') = tp_Transport (conn_topology c) \<and>
   tp_ServiceName (conn_topology c') = tp_ServiceName (conn_topology c)"
proof (induction fs arbitrary: c w)
  case Nil
  then show ?case by simp
next
  case (Cons f fs)
  then obtain e c1 w1 where P: "P (snd f)" and f: "snd f c w = Some (e, c1, w1)"
    by (auto simp: bind_eq_Some_conv)
  from declares [OF P f] have "tp_Transport (conn_topology c1) = tp_Transport (conn_topology c)"
    "tp_ServiceName (conn_topology c1) = tp_ServiceName (conn_topology c)" by auto
  with Cons f show ?case by (cases e) auto
qed

end

lemma failed_Start:
  assumes "\<forall>f \<in> set fs. pkg_setup E (snd f)" and "\<not> conn_started c" and "\<not> conn_collectMode c"
    and "Start E fs c w = Some (Some e, c1, w1)"
  shows "\<not> conn_started c1 \<and> \<not> conn_collectMode c1 \<and> conn_serviceName c1 = conn_serviceName c \<and>
    tp_Transport (conn_topology c1) = tp_Transport (conn_topology c) \<and>
    tp_ServiceName (conn_topology c1) = tp_ServiceName (conn_topology c)"
  using assms(2-4)
proof (cases rule: Start_live)
  case (Setup w0)
  with pkg.run_session [OF assms(1) Setup(3)] pkg.run_topology [OF assms(1) Setup(3)] assms(2,3)
  show ?thesis by (simp add: same_session_def connected_def)
next
  case (Pending c0 w0 w2)
  have "conn_started c1 = conn_started c0" "conn_collectMode c1 = conn_collectMode c0"
    "conn_serviceName c1 = conn_serviceName c0" "conn_topology c1 = conn_topology c0"
    by (rule startPending_result [OF Pending(4)]; simp)+
  with Pending pkg.run_session [OF assms(1) Pending(3)] pkg.run_topology [OF assms(1) Pending(3)]
    assms(2,3) show ?thesis by (simp add: same_session_def connected_def)
qed (use assms(2,3) in simp_all)

section \<open>Properties\<close>

lemma start_group_accepting:
  assumes "accepting E" and "g \<noteq> []" and "conn_js c"
  shows "\<exists>c' w'. start_group E g c w = Some (None, c', w') \<and> conn_js c'"
  using assms
  by (cases g) (auto simp: start_group_def ensureStream_eq Let_def perform_def accepting_def)

lemma start_list_accepting:
  assumes "accepting E"
  shows "\<forall>g \<in> set gs. g \<noteq> [] \<Longrightarrow> conn_js c \<Longrightarrow> \<exists>c' w'. start_list E gs c w = Some (None, c', w')"
proof (induction gs arbitrary: c w)
  case Nil
  then show ?case by simp
next
  case (Cons g gs)
  then obtain c1 w1 where "start_group E g c w = Some (None, c1, w1)" "conn_js c1"
    using start_group_accepting [OF assms, of g c w] by auto
  with Cons show ?case by auto
qed

lemma startPending_accepting:
  assumes "accepting E" and "conn_js c"
  shows "\<exists>c' w'. startPendingJSConsumers E c w = Some (None, c', w')"
proof -
  obtain c1 w1 where "start_list E (groups_of (conn_pendingJSConsumers c)) c w = Some (None, c1, w1)"
    using start_list_accepting [OF assms(1) _ assms(2)] groups_of_not_Nil by blast
  then show ?thesis by (simp add: startPendingJSConsumers_eq)
qed

lemma startPending_defined:
  assumes "conn_js c"
  shows "\<exists>r c' w'. startPendingJSConsumers E c w = Some (r, c', w')"
proof -
  obtain r c1 w1 where "start_list E (groups_of (conn_pendingJSConsumers c)) c w = Some (r, c1, w1)"
    using start_list_defined [OF _ assms] groups_of_not_Nil by blast
  then show ?thesis by (simp add: startPendingJSConsumers_eq)
qed

lemma Start_started:
  assumes "\<forall>f \<in> set fs. calm_setup E (snd f)" and "\<not> conn_started c"
    and "Start E fs c w = Some (r, c', w')"
  shows "conn_started c' \<longleftrightarrow> r = None"
proof (cases "conn_collectMode c")
  case True
  with assms(2,3) obtain r1 c1 where
    run: "run_setups E fs (with_span_name c) w = Some (r1, c1, w')"
    and res: "r = r1" "c' = (if r1 = None then c1\<lparr>conn_started := True\<rparr> else c1)"
    by (auto simp: Start_def Let_def with_span_name_def [symmetric] bind_eq_Some_conv split: option.splits)
  with live.run_session [OF assms(1) run] assms(2) show ?thesis by (simp add: same_session_def)
next
  case False
  from assms(2) False assms(3) show ?thesis
  proof (cases rule: Start_live)
    case (Setup w1)
    with live.run_session [OF assms(1) Setup(3)] assms(2) show ?thesis
      by (simp add: same_session_def connected_def)
  next
    case (Pending c1 w1 w2)
    have "conn_started c' = conn_started c1"
      by (rule startPending_result [OF Pending(4)]) simp
    with Pending live.run_session [OF assms(1) Pending(3)] assms(2) show ?thesis
      by (simp add: same_session_def connected_def)
  qed (use assms(2) in simp_all)
qed

text \<open>Connecting and creating the JetStream context succeed; then \<open>Start\<close> runs the setup functions.\<close>

definition connects :: "'x ext \<Rightarrow> ('x, 'app) connection \<Rightarrow> ('x, 'app) nworld \<Rightarrow> bool" where
  "connects E c w \<longleftrightarrow> answer E (trace w) (connect_call c) = None \<and>
     answer E (trace (emit (connect_call c) w)) JetStreamNew = None"

lemma Start_connects:
  assumes "\<not> conn_started c" and "\<not> conn_collectMode c" and "connects E c w"
  shows "Start E fs c w = do {
     (err, c, w) \<leftarrow> run_setups E fs (connected c) (after_connect c w);
     (case err of
        Some err \<Rightarrow> Some (Some err, c, emit NcClose w)
      | None \<Rightarrow> do {
          (err, c, w) \<leftarrow> startPendingJSConsumers E c w;
          (case err of
             Some err \<Rightarrow> Some (Some err, c, emit NcClose w)
           | None \<Rightarrow> Some (None, c\<lparr>conn_started := True\<rparr>, log_at LevelInfo ''connection started'' w)) }) }"
  using assms by (simp add: Start_def Let_def perform_def with_span_name_def [symmetric] connected_def
      after_connect_def connects_def)

lemma Start_not_connects:
  assumes "\<not> conn_started c" and "\<not> conn_collectMode c" and "\<not> connects E c w"
  shows "\<exists>e c' w'. Start E fs c w = Some (Some e, c', w') \<and> conn_topology c' = conn_topology c \<and>
    conn_consumers c' = conn_consumers c \<and> js_callbacks w' = js_callbacks w"
  using assms by (auto simp: Start_def Let_def perform_def connects_def split: option.split)

text \<open>
  C14: \<open>Start\<close> always returns. Whatever the broker answers, whatever setup functions of the package
  are given other than \<open>WithLogger\<close> with a \<open>nil\<close> logger (which panics), on a live connection and on one
  that collects, and however often the connection was started before, \<open>Start\<close> neither panics nor
  hangs; and afterwards the connection is started exactly if it was before or this \<open>Start\<close> reports no
  error.
\<close>

theorem Start_total:
  assumes "\<forall>f \<in> set fs. calm_setup E (snd f)"
  shows "\<exists>r c' w'. Start E fs c w = Some (r, c', w') \<and> (conn_started c' \<longleftrightarrow> conn_started c \<or> r = None)"
proof (cases "conn_started c")
  case True
  then show ?thesis by (simp add: Start_def)
next
  case False
  have "Start E fs c w \<noteq> None"
  proof (cases "conn_collectMode c")
    case True
    then have "conn_collectMode (with_span_name c)" by simp
    then obtain r1 c1 w1 where "run_setups E fs (with_span_name c) w = Some (r1, c1, w1)"
      using live.run_defined [OF assms] by blast
    with True \<open>\<not> conn_started c\<close> show ?thesis
      by (auto simp: Start_def Let_def with_span_name_def [symmetric] split: option.split)
  next
    case live: False
    show ?thesis
    proof (cases "connects E c w")
      case True
      have js: "conn_js (connected c)" by (simp add: connected_def)
      then obtain r1 c1 w1 where
        run: "run_setups E fs (connected c) (after_connect c w) = Some (r1, c1, w1)"
        using live.run_defined [OF assms] by blast
      from live.run_session [OF assms run] js have "conn_js c1" by (simp add: same_session_def)
      then obtain r2 c2 w2 where "startPendingJSConsumers E c1 w1 = Some (r2, c2, w2)"
        using startPending_defined by blast
      with run Start_connects [OF \<open>\<not> conn_started c\<close> live True, of fs] show ?thesis
        by (auto split: option.split)
    next
      case False
      with Start_not_connects [OF \<open>\<not> conn_started c\<close> live this, of fs] show ?thesis by auto
    qed
  qed
  then obtain r c' w' where "Start E fs c w = Some (r, c', w')" by auto
  with Start_started [OF assms False this] False show ?thesis by simp
qed

lemma calm_setupI: "pkg_setup E f \<Longrightarrow> f c w \<noteq> None \<Longrightarrow> calm_setup E f"
  by (auto simp: calm_setup_def WithLogger_def)

lemma demo_setups_calm: "\<forall>f \<in> set demo_setups. calm_setup demo_ext (snd f)"
proof
  fix f
  assume f: "f \<in> set demo_setups"
  let ?c = "demo_conn\<lparr>conn_js := True\<rparr>"
  have "snd f ?c demo_nworld \<noteq> None"
    using f by (auto simp: demo_run_defs demo_ext_def)
  with f demo_setups_pkg show "calm_setup demo_ext (snd f)" by (blast intro: calm_setupI)
qed

theorem Start_total_witness:
  "\<exists>r c' w'. Start demo_ext demo_setups demo_conn demo_nworld = Some (r, c', w') \<and>
     (conn_started c' \<longleftrightarrow> r = None)"
proof -
  have "\<not> conn_started demo_conn"
    by (simp add: newConnection_def zero_connection_def)
  with Start_total [OF demo_setups_calm, of demo_conn demo_nworld] show ?thesis by simp
qed

text \<open>
  C4: The dry run predicts the start. If \<open>CollectTopology\<close> succeeds for a service with some of the
  package's setup functions, then \<open>Start\<close> of a new connection for that service with the same setup
  functions succeeds on every broker that accepts; the started connection has the collected
  topology, and all consumers that were declared are running.
\<close>

theorem Start_succeeds:
  assumes "\<forall>f \<in> set fs. calm_setup E (snd f)" and "accepting E"
    and "CollectTopology service (map snd fs) v = Some (Inr T, v')"
  shows "\<exists>c' w'. Start E fs (newConnection service url opts) w = Some (None, c', w') \<and>
    conn_started c' \<and> Topology c' = T \<and> conn_pendingJSConsumers c' = []"
proof -
  let ?c = "newConnection service url opts"
  let ?d = "zero_connection
         \<lparr>conn_serviceName := service, conn_logger := Some [],
          conn_topology := \<lparr>tp_Transport = TransportNATS, tp_ServiceName = service,
                            tp_Endpoints = []\<rparr>,
          conn_collectMode := True\<rparr>"
  from assms(3) obtain d' where d': "collect_setups (map snd fs) ?d v = Some (None, d', v')"
    "T = conn_topology d'"
    by (auto simp: CollectTopology_def bind_eq_Some_conv split: option.splits)
  have "same_declarations (connected ?c) ?d" "conn_js (connected ?c)" "conn_collectMode ?d"
    by (simp_all add: same_declarations_def connected_def newConnection_def zero_connection_def
        with_span_name_def)
  from live.run_starts [OF assms(1,2) this d'(1)] obtain c1 w1 where
    run: "run_setups E fs (connected ?c) (after_connect ?c w) = Some (None, c1, w1)"
      "same_declarations c1 d'" by blast
  from live.run_session [OF assms(1) run(1)] have "conn_js c1"
    by (simp add: same_session_def connected_def)
  then obtain c2 w2 where pend: "startPendingJSConsumers E c1 w1 = Some (None, c2, w2)"
    using startPending_accepting [OF assms(2)] by blast
  have "Start E fs ?c w = Some (None, c2\<lparr>conn_started := True\<rparr>, log_at LevelInfo ''connection started'' w2)"
    using run(1) pend assms(2)
    by (simp add: Start_def Let_def perform_def with_span_name_def connected_def after_connect_def
        accepting_def newConnection_def zero_connection_def)
  moreover have "conn_topology c2 = conn_topology c1" "conn_pendingJSConsumers c2 = []"
    by (rule startPending_result [OF pend]; simp)+
  ultimately show ?thesis
    using run(2) by (simp add: Topology_def d'(2) same_declarations_def)
qed

theorem Start_succeeds_witness:
  "\<exists>T v' c' w'. CollectTopology ''svc'' (map snd demo_setups) demo_nworld = Some (Inr T, v') \<and>
     Start demo_ext demo_setups demo_conn demo_nworld = Some (None, c', w') \<and> Topology c' = T"
proof -
  have "accepting demo_ext" by (simp add: accepting_def demo_ext_def)
  moreover have "\<exists>T v'. CollectTopology ''svc'' (map snd demo_setups) demo_nworld = Some (Inr T, v')"
    by (simp add: CollectTopology_def demo_run_defs demo_ext_def)
  then obtain T v' where
    "CollectTopology ''svc'' (map snd demo_setups) demo_nworld = Some (Inr T, v')" by blast
  ultimately show ?thesis
    using Start_succeeds [OF demo_setups_calm, of "''svc''" demo_nworld T v' "''nats://localhost''" "[]"
        demo_nworld] by blast
qed

text \<open>How many setup functions return no error before the first one that does.\<close>

fun completed :: "('x, 'app) named_setup list \<Rightarrow> ('x, 'app) connection \<Rightarrow> ('x, 'app) nworld \<Rightarrow> nat" where
  "completed [] c w = 0"
| "completed (f # fs) c w =
     (case snd f c w of Some (None, c', w') \<Rightarrow> Suc (completed fs c' w') | _ \<Rightarrow> 0)"

definition completed_by_Start ::
  "'x ext \<Rightarrow> ('x, 'app) named_setup list \<Rightarrow> ('x, 'app) connection \<Rightarrow> ('x, 'app) nworld \<Rightarrow> nat" where
  "completed_by_Start E fs c w =
     (if connects E c w then completed fs (connected c) (after_connect c w) else 0)"

text \<open>A setup function that fails declares nothing.\<close>

lemma pkg_setup_failed:
  assumes "pkg_setup E f" and "f c w = Some (Some e, c', w')"
  shows "conn_topology c' = conn_topology c"
  using assms(1)
proof cases
  case config
  with config_setup_frame [OF config assms(2)] show ?thesis by simp
next
  case (stream opts e t h st k)
  with assms(2) show ?thesis by (auto simp: stream_consumer_def split: sum.splits)
next
  case (core cb what t k)
  with core_setup_result(1) [of E cb what t k c w "Some e" c' w'] assms(2) show ?thesis by auto
next
  case (response t target k)
  with assms(2) show ?thesis by (auto simp: response_setup_def)
next
  case (stream_publisher st pid)
  with StreamPublisher_result(4) [of E st pid c w "Some e"] assms(2) show ?thesis by simp
next
  case (service_publisher target pid)
  with ServicePublisher_result(4) [of E target pid c w "Some e"] assms(2) show ?thesis by simp
qed

lemma run_setups_completed:
  assumes "\<forall>f \<in> set fs. pkg_setup E (snd f)" and "run_setups E fs c w = Some (r, c', w')"
  shows "\<exists>c0 w0. run_setups E (take (completed fs c w) fs) c w = Some (None, c0, w0) \<and>
    conn_topology c' = conn_topology c0"
  using assms
proof (induction fs arbitrary: c w)
  case Nil
  then show ?case by simp
next
  case (Cons f fs)
  then obtain r1 c1 w1 where P: "pkg_setup E (snd f)" and f: "snd f c w = Some (r1, c1, w1)"
    by (auto simp: bind_eq_Some_conv)
  show ?case
  proof (cases r1)
    case (Some e)
    with Cons.prems(2) f pkg_setup_failed [OF P, of c w e c1 w1] show ?thesis by simp
  next
    case None
    with Cons.prems(2) f have "run_setups E fs c1 w1 = Some (r, c', w')" by simp
    from Cons.IH [OF _ this] Cons.prems(1) f None show ?thesis by simp
  qed
qed

text \<open>What the failed attempt leaves: the endpoints of the setup functions it completed, and a handle
  for every consumer it started.\<close>

lemma failed_Start_leaves:
  assumes "\<forall>f \<in> set fs. pkg_setup E (snd f)" and "\<not> conn_started c" and "\<not> conn_collectMode c"
    and "Start E fs c w = Some (Some e, c1, w1)"
  shows "\<exists>c0 w0. run_setups E (take (completed_by_Start E fs c w) fs) (connected c) (after_connect c w)
      = Some (None, c0, w0) \<and> conn_topology c1 = conn_topology c0 \<and>
    conn_consumers c1 = conn_consumers c @ map (\<lambda>i. \<lparr>jh_ctx = Some (length (js_callbacks w) + i)\<rparr>)
      [0..<length (js_callbacks w1) - length (js_callbacks w)]"
proof (cases "connects E c w")
  case False
  with Start_not_connects [OF assms(2,3) False, of fs] assms(4) show ?thesis
    by (auto simp: completed_by_Start_def connected_def)
next
  case True
  with assms(4) Start_connects [OF assms(2,3) True, of fs] obtain r2 c2 w2 where
    run: "run_setups E fs (connected c) (after_connect c w) = Some (r2, c2, w2)"
    and rest: "(case r2 of Some err \<Rightarrow> Some (Some err, c2, emit NcClose w2)
      | None \<Rightarrow> do { (err, c, w) \<leftarrow> startPendingJSConsumers E c2 w2;
          (case err of Some err \<Rightarrow> Some (Some err, c, emit NcClose w)
           | None \<Rightarrow> Some (None, c\<lparr>conn_started := True\<rparr>, log_at LevelInfo ''connection started'' w)) })
      = Some (Some e, c1, w1)"
    by (auto simp: bind_eq_Some_conv)
  have c2: "conn_consumers c2 = conn_consumers c" "js_callbacks w2 = js_callbacks w"
    using pkg.run_session [OF assms(1) run]
    by (simp_all add: same_session_def connected_def after_connect_def)
  have left: "conn_topology c1 = conn_topology c2 \<and>
    conn_consumers c1 = conn_consumers c @ map (\<lambda>i. \<lparr>jh_ctx = Some (length (js_callbacks w) + i)\<rparr>)
      [0..<length (js_callbacks w1) - length (js_callbacks w)]"
  proof (cases r2)
    case (Some e2)
    with rest c2 show ?thesis by auto
  next
    case None
    with rest obtain w3 where pend: "startPendingJSConsumers E c2 w2 = Some (Some e, c1, w3)"
      and w1: "w1 = emit NcClose w3"
      by (auto simp: bind_eq_Some_conv split: option.splits)
    show ?thesis by (rule startPending_result [OF pend]) (simp add: c2 w1)
  qed
  from run_setups_completed [OF assms(1) run] left True show ?thesis
    by (auto simp: completed_by_Start_def)
qed

text \<open>A dry run and a live one of the same setup functions declare the same endpoints.\<close>

abbreviation collecting_connection :: "string \<Rightarrow> ('x, 'app) connection" where
  "collecting_connection service \<equiv> zero_connection
     \<lparr>conn_serviceName := service, conn_logger := Some [],
      conn_topology := \<lparr>tp_Transport = TransportNATS, tp_ServiceName = service, tp_Endpoints = []\<rparr>,
      conn_collectMode := True\<rparr>"

lemma run_setups_topology:
  assumes "\<forall>f \<in> set fs. pkg_setup E (snd f)" and "run_setups E fs c w = Some (None, c', w')"
    and "conn_serviceName c = service" and "tp_Transport (conn_topology c) = TransportNATS"
    and "tp_ServiceName (conn_topology c) = service"
  shows "\<exists>T u'. CollectTopology service (map snd fs) u = Some (Inr T, u') \<and>
    conn_topology c' = T\<lparr>tp_Endpoints := tp_Endpoints (conn_topology c) @ tp_Endpoints T\<rparr>"
proof -
  obtain eps where eps: "\<forall>c w c' w'.
      run_setups E fs c w = Some (None, c', w') \<or> collect_setups (map snd fs) c w = Some (None, c', w') \<longrightarrow>
      conn_topology c' = (conn_topology c)
        \<lparr>tp_Endpoints := tp_Endpoints (conn_topology c) @ eps (conn_serviceName c)\<rparr>"
    using run_setups_declared [OF assms(1)] by blast
  have "conn_collectMode (collecting_connection service)"
    "conn_serviceName (collecting_connection service) = conn_serviceName c"
    by (simp_all add: assms(3))
  from run_setups_dry [OF assms(1,2) this] obtain d' u' where
    d': "collect_setups (map snd fs) (collecting_connection service) u = Some (None, d', u')" by blast
  then have "conn_topology d' = \<lparr>tp_Transport = TransportNATS, tp_ServiceName = service,
      tp_Endpoints = eps service\<rparr>"
    using eps by fastforce
  moreover have "CollectTopology service (map snd fs) u = Some (Inr (conn_topology d'), u')"
    using d' by (simp add: CollectTopology_def)
  ultimately show ?thesis
    using eps [rule_format, OF disjI1 [OF assms(2)]] assms(3-5) by simp
qed

text \<open>
  C27: A failed start leaves its declarations behind. If \<open>Start\<close> of a new connection fails, the
  connection keeps the topology of exactly the setup functions that had completed (all of them, if a
  consumer could not be started), and the handles of all consumers that had been started, although
  their NATS connection is closed. \<open>Start\<close> may then be called again, and if it succeeds with the same
  setup functions, the topology of the started connection has the endpoints of the failed attempt
  first and those of the setup functions once more. It is not the topology that \<open>CollectTopology\<close>
  gives if the failed attempt had declared anything.
\<close>

theorem Start_retry_keeps_stale:
  assumes "\<forall>f \<in> set fs. pkg_setup E (snd f)"
    and "Start E fs (newConnection service url opts) w = Some (Some e, c1, w1)"
    and "Start E fs c1 v = Some (None, c2, v2)"
  shows "\<exists>T1 T u1 u2.
    CollectTopology service
      (map snd (take (completed_by_Start E fs (newConnection service url opts) w) fs)) u
      = Some (Inr T1, u1) \<and>
    CollectTopology service (map snd fs) u = Some (Inr T, u2) \<and>
    Topology c1 = T1 \<and> Topology c2 = T\<lparr>tp_Endpoints := tp_Endpoints T1 @ tp_Endpoints T\<rparr> \<and>
    (tp_Endpoints T1 \<noteq> [] \<longrightarrow> Topology c2 \<noteq> T) \<and>
    conn_consumers c1 = map (\<lambda>i. \<lparr>jh_ctx = Some (length (js_callbacks w) + i)\<rparr>)
      [0..<length (js_callbacks w1) - length (js_callbacks w)] \<and>
    take (length (conn_consumers c1)) (conn_consumers c2) = conn_consumers c1"
proof -
  let ?c = "newConnection service url opts"
  let ?n = "completed_by_Start E fs ?c w"
  have new: "\<not> conn_started ?c" "\<not> conn_collectMode ?c" "conn_consumers ?c = []"
    by (simp_all add: newConnection_def zero_connection_def)
  have c1: "\<not> conn_started c1" "\<not> conn_collectMode c1" "conn_serviceName c1 = service"
    "tp_Transport (conn_topology c1) = TransportNATS" "tp_ServiceName (conn_topology c1) = service"
    using failed_Start [OF assms(1) _ _ assms(2)]
    by (simp_all add: newConnection_def zero_connection_def)
  obtain c0 w0 where ran: "run_setups E (take ?n fs) (connected ?c) (after_connect ?c w) = Some (None, c0, w0)"
    and left: "conn_topology c1 = conn_topology c0"
      "conn_consumers c1 = map (\<lambda>i. \<lparr>jh_ctx = Some (length (js_callbacks w) + i)\<rparr>)
        [0..<length (js_callbacks w1) - length (js_callbacks w)]"
    using failed_Start_leaves [OF assms(1) new(1,2) assms(2)] new(3) by auto
  have "\<forall>f \<in> set (take ?n fs). pkg_setup E (snd f)" using assms(1) by (blast dest: in_set_takeD)
  from run_setups_topology [OF this ran, of service u] obtain T1 u1 where
    T1: "CollectTopology service (map snd (take ?n fs)) u = Some (Inr T1, u1)" "conn_topology c1 = T1"
    using left(1) by (auto simp: connected_def newConnection_def zero_connection_def)
  from c1(1,2) assms(3) show ?thesis
  proof (cases rule: Start_live)
    case (Started d1 v1 d2 v2')
    have "conn_topology d2 = conn_topology d1" "\<exists>hs. conn_consumers d2 = conn_consumers d1 @ hs"
      by (rule startPending_result [OF Started(4)]; simp)+
    moreover obtain T u2 where T: "CollectTopology service (map snd fs) u = Some (Inr T, u2)"
      "conn_topology d1 = T\<lparr>tp_Endpoints := tp_Endpoints (conn_topology c1) @ tp_Endpoints T\<rparr>"
      using run_setups_topology [OF assms(1) Started(3), of service u] c1(3-5)
      by (auto simp: connected_def)
    moreover have "conn_consumers d1 = conn_consumers c1"
      using pkg.run_session [OF assms(1) Started(3)] by (simp add: same_session_def connected_def)
    ultimately have "Topology c2 = T\<lparr>tp_Endpoints := tp_Endpoints T1 @ tp_Endpoints T\<rparr>"
      "take (length (conn_consumers c1)) (conn_consumers c2) = conn_consumers c1"
      by (auto simp: Started(5) Topology_def T1(2))
    moreover from this(1) have "Topology c2 \<noteq> T" if "tp_Endpoints T1 \<noteq> []"
      using that by (metis append_self_conv2 topology.select_convs(3) topology.surjective
          topology.update_convs(3))
    ultimately show ?thesis using T1 T(1) left(2) by (auto simp: Topology_def)
  qed simp_all
qed

text \<open>A broker that refuses the first subscription and accepts it when it is asked again.\<close>

definition flaky_ext :: "unit ext" where
  "flaky_ext = demo_ext\<lparr>answer := (\<lambda>t x. case x of
     NcSubscribe s \<Rightarrow> if x \<in> set t then None else Some (Plain ''refused'') | _ \<Rightarrow> None)\<rparr>"

definition flaky_setups :: "(unit, nat) named_setup list" where
  "flaky_setups =
     [(''publisher'', ServicePublisher flaky_ext ''other'' 0),
      (''requests'', RequestResponseHandler flaky_ext demo_type (\<lambda>r. Inr r) ''Order.Get''
         (\<lambda>_ _ s. Some (Inr ''{}'', s)))]"

theorem Start_retry_keeps_stale_witness:
  "\<exists>e c1 w1 c2 w2. Start flaky_ext flaky_setups demo_conn demo_nworld = Some (Some e, c1, w1) \<and>
     Start flaky_ext flaky_setups c1 w1 = Some (None, c2, w2) \<and>
     length (tp_Endpoints (Topology c1)) = 1 \<and> length (tp_Endpoints (Topology c2)) = 3"
proof -
  note defs = flaky_setups_def ServicePublisher_def Start_def demo_run_defs flaky_ext_def demo_ext_def
    demo_nworld_def startPendingJSConsumers_eq groups_of_def
  have "\<exists>e c1 w1 c2 w2. Start flaky_ext flaky_setups demo_conn demo_nworld = Some (Some e, c1, w1) \<and>
     Start flaky_ext flaky_setups c1 w1 = Some (None, c2, w2) \<and>
     length (tp_Endpoints (Topology c1)) = 1"
    by (simp add: defs Topology_def)
  then obtain e c1 w1 c2 w2 where run: "Start flaky_ext flaky_setups demo_conn demo_nworld = Some (Some e, c1, w1)"
    "Start flaky_ext flaky_setups c1 w1 = Some (None, c2, w2)" "length (tp_Endpoints (Topology c1)) = 1"
    by (elim exE conjE) (rule that)
  have pkg: "\<forall>f \<in> set flaky_setups. pkg_setup flaky_ext (snd f)"
    by (simp add: flaky_setups_def pkg_setup_intros)
  have "\<exists>T u'. CollectTopology ''svc'' (map snd flaky_setups) demo_nworld = Some (Inr T, u') \<and>
      length (tp_Endpoints T) = 2"
    by (simp add: CollectTopology_def defs)
  with Start_retry_keeps_stale [OF pkg run(1,2), of demo_nworld] run show ?thesis by auto
qed

end
