(* ===== verification/Tck_Adapter.thy ===== *)
theory Tck_Adapter
  imports Lifecycle
begin

text \<open>
  \<open>cmd/tck-adapter/main.go\<close>: the adapter with which a conformance suite drives the transport. A
  service is started from a list of intents; its state offers the topology, a publish function and
  the messages received so far. The data types of the suite are records here; the key it gives a
  publisher and the JSON encoding of raw messages are parameters.
\<close>

section \<open>Definitions\<close>

text \<open>\<open>spectest.SetupIntent\<close> and \<open>tck.ReceivedMessageWire\<close>.\<close>

record SetupIntent =
  in_Pattern :: string
  in_Direction :: string
  in_RoutingKey :: string
  in_Ephemeral :: bool
  in_QueueSuffix :: string
  in_Exchange :: string
  in_TargetService :: string

record 'x ReceivedMessageWire =
  rw_RoutingKey :: string
  rw_Payload :: string
  rw_Metadata :: 'x
  rw_DeliveryInfo :: "'x delivery_info"

text \<open>
  The parameters: \<open>spectest.PublisherKey\<close>, and \<open>json.Unmarshal\<close> into and \<open>json.Marshal\<close> of a
  \<open>json.RawMessage\<close>.
\<close>

record tck_ext =
  tck_PublisherKey :: "SetupIntent \<Rightarrow> string"
  raw_Unmarshal :: "string \<Rightarrow> go_error + string"
  raw_Marshal :: "string \<Rightarrow> go_error + string"

text \<open>The type \<open>json.RawMessage\<close>: a raw payload is a value of it as it is.\<close>

definition raw_type :: "tck_ext \<Rightarrow> string go_type" where
  "raw_type K =
     \<lparr>ty_IsInterface = False, ty_String = ''json.RawMessage'', ty_AssertRaw = Some,
      ty_Unmarshal = raw_Unmarshal K\<rparr>"

text \<open>The variable \<open>received\<close> is the application state.\<close>

type_synonym 'x received = "'x ReceivedMessageWire list"

definition wire_of :: "('x, string) ConsumableEvent \<Rightarrow> 'x ReceivedMessageWire" where
  "wire_of event =
     \<lparr>rw_RoutingKey = di_Key (ce_DeliveryInfo event), rw_Payload = ce_Payload event,
      rw_Metadata = ce_Metadata event, rw_DeliveryInfo = ce_DeliveryInfo event\<rparr>"

definition captureHandler :: "('x, string, 'x received) EventHandler" where
  "captureHandler ctx event received = Some (None, received @ [wire_of event])"

definition rrHandler :: "('x, string, string, 'x received) RequestResponseEventHandler" where
  "rrHandler ctx event received =
     Some (Inr ([CHR ''{''] @ [CHR 0x22] @ ''ok'' @ [CHR 0x22] @ '':true}''), received @ [wire_of event])"

text \<open>
  The variables of \<open>StartService\<close> that the loop over the intents changes; \<open>ls_next\<close> is the address
  of the next publisher.
\<close>

record 'x loop_state =
  ls_setups :: "('x, 'x received) named_setup list"
  ls_publishers :: "string \<rightharpoonup> nat"
  ls_publisherKeys :: "string list"
  ls_next :: nat

definition add_setup :: "('x, 'x received) named_setup \<Rightarrow> 'x loop_state \<Rightarrow> 'x loop_state" where
  "add_setup f ls = ls\<lparr>ls_setups := ls_setups ls @ [f]\<rparr>"

definition add_publisher ::
  "string \<Rightarrow> string \<Rightarrow> (nat \<Rightarrow> ('x, 'x received) Setup) \<Rightarrow> 'x loop_state \<Rightarrow> 'x loop_state" where
  "add_publisher name pk setup ls =
     ls\<lparr>ls_setups := ls_setups ls @ [(name, setup (ls_next ls))],
        ls_publishers := (ls_publishers ls)(pk \<mapsto> ls_next ls),
        ls_publisherKeys := ls_publisherKeys ls @ [pk], ls_next := ls_next ls + 1\<rparr>"

text \<open>The names that \<open>getSetupFuncName\<close> finds for the closures of the package.\<close>

definition setup_name :: "string \<Rightarrow> string" where
  "setup_name f = ''github.com/sparetimecoders/go-messaging-nats.'' @ f @ ''.func1''"

text \<open>One round of the loop over the intents.\<close>

definition apply_intent ::
  "'x ext \<Rightarrow> tck_ext \<Rightarrow> SetupIntent \<Rightarrow> 'x loop_state \<Rightarrow> go_error + 'x loop_state" where
  "apply_intent E K intent ls =
     (let pattern = in_Pattern intent; direction = in_Direction intent;
          routingKey = in_RoutingKey intent; T = raw_type K; pk = tck_PublisherKey K intent
      in if pattern = ''event-stream'' \<and> direction = ''publish'' then
           Inr (add_publisher (setup_name ''StreamPublisher'') pk (EventStreamPublisher E) ls)
         else if pattern = ''event-stream'' \<and> direction = ''consume'' \<and> \<not> in_Ephemeral intent \<and>
             in_QueueSuffix intent \<noteq> '''' then
           Inr (add_setup (setup_name ''StreamConsumer[...]'',
             EventStreamConsumer E T routingKey captureHandler
               [AddConsumerNameSuffix (in_QueueSuffix intent)]) ls)
         else if pattern = ''event-stream'' \<and> direction = ''consume'' \<and> \<not> in_Ephemeral intent then
           Inr (add_setup (setup_name ''StreamConsumer[...]'',
             EventStreamConsumer E T routingKey captureHandler []) ls)
         else if pattern = ''event-stream'' \<and> direction = ''consume'' \<and> in_Ephemeral intent then
           Inr (add_setup (setup_name ''TransientStreamConsumer[...]'',
             TransientEventStreamConsumer E T routingKey captureHandler []) ls)
         else if pattern = ''custom-stream'' \<and> direction = ''publish'' then
           Inr (add_publisher (setup_name ''StreamPublisher'') pk
             (StreamPublisher E (in_Exchange intent)) ls)
         else if pattern = ''custom-stream'' \<and> direction = ''consume'' \<and> \<not> in_Ephemeral intent then
           Inr (add_setup (setup_name ''StreamConsumer[...]'',
             StreamConsumer E T (in_Exchange intent) routingKey captureHandler []) ls)
         else if pattern = ''custom-stream'' \<and> direction = ''consume'' \<and> in_Ephemeral intent then
           Inr (add_setup (setup_name ''TransientStreamConsumer[...]'',
             TransientStreamConsumer E T (in_Exchange intent) routingKey captureHandler []) ls)
         else if pattern = ''service-request'' \<and> direction = ''consume'' then
           Inr (add_setup (setup_name ''RequestResponseHandler[...]'',
             RequestResponseHandler E T (raw_Marshal K) routingKey rrHandler) ls)
         else if pattern = ''service-request'' \<and> direction = ''publish'' then
           Inr (add_publisher (setup_name ''ServicePublisher'') pk
             (ServicePublisher E (in_TargetService intent)) ls)
         else if pattern = ''service-response'' \<and> direction = ''consume'' then
           Inr (add_setup (setup_name ''ServiceResponseConsumer[...]'',
             ServiceResponseConsumer T (in_TargetService intent) routingKey captureHandler []) ls)
         else if pattern = ''service-response'' \<and> direction = ''publish'' then
           Inr (ls\<lparr>ls_publisherKeys := ls_publisherKeys ls @ [pk]\<rparr>)
         else Inl (Plain (''unsupported intent: pattern='' @ pattern @ '' direction='' @ direction)))"

fun apply_intents ::
  "'x ext \<Rightarrow> tck_ext \<Rightarrow> SetupIntent list \<Rightarrow> 'x loop_state \<Rightarrow> go_error + 'x loop_state" where
  "apply_intents E K [] ls = Inr ls"
| "apply_intents E K (i # is) ls =
     (case apply_intent E K i ls of Inl err \<Rightarrow> Inl err | Inr ls \<Rightarrow> apply_intents E K is ls)"

text \<open>\<open>adapterutil.ServiceState\<close>: the topology, the keys, and what its functions capture.\<close>

record 'x ServiceState =
  ss_Topology :: topology
  ss_PublisherKeys :: "string list"
  ss_publishers :: "string \<rightharpoonup> nat"
  ss_conn :: "('x, 'x received) connection"

text \<open>
  \<open>StartService\<close>; \<open>base\<close> is the first address that holds no publisher yet, and every address from
  there on holds a new one. The list of received messages is the service's own and empty.
\<close>

definition StartService ::
  "'x ext \<Rightarrow> tck_ext \<Rightarrow> string \<Rightarrow> string \<Rightarrow> SetupIntent list \<Rightarrow> nat \<Rightarrow> ('x, 'x received) nworld
   \<Rightarrow> ((go_error + 'x ServiceState) \<times> ('x, 'x received) nworld) option" where
  "StartService E K url serviceName intents base w =
     (case apply_intents E K intents
             \<lparr>ls_setups = [], ls_publishers = Map.empty, ls_publisherKeys = [], ls_next = base\<rparr> of
        Inl err \<Rightarrow> Some (Inl err, w)
      | Inr ls \<Rightarrow>
          (let w = w\<lparr>pubs := (\<lambda>i. if base \<le> i then NewPublisher else pubs w i), app := []\<rparr>
           in case NewConnection serviceName url [] of
                Inl err \<Rightarrow> Some (Inl (wrap_error (ext_error_text E) ''connect'' err), w)
              | Inr conn \<Rightarrow>
                  do {
                    (err, conn, w) \<leftarrow> Start E (ls_setups ls) conn w;
                    Some (case err of
                            Some err \<Rightarrow> Inl (wrap_error (ext_error_text E) ''start'' err)
                          | None \<Rightarrow> Inr
                              \<lparr>ss_Topology = Topology conn, ss_PublisherKeys = ls_publisherKeys ls,
                               ss_publishers = ls_publishers ls, ss_conn = conn\<rparr>, w)
                  }))"

text \<open>The function \<open>Publish\<close> of the service state.\<close>

definition tck_Publish ::
  "'x ext \<Rightarrow> tck_ext \<Rightarrow> 'x ServiceState \<Rightarrow> string \<Rightarrow> string \<Rightarrow> string \<Rightarrow> string gomap
   \<Rightarrow> ('x, 'x received) nworld \<Rightarrow> (go_error option \<times> ('x, 'x received) nworld) option" where
  "tck_Publish E K st publisherKey routingKey payload headers w =
     (if take 17 publisherKey = ''service-response:'' then Some (None, w)
      else case ss_publishers st publisherKey of
             None \<Rightarrow> Some (Some (Plain (''unknown publisher key: '' @ publisherKey)), w)
           | Some pub \<Rightarrow>
               (let hdrs = map (\<lambda>(k, v). \<lparr>h_Key = k, h_Value = v\<rparr>)
                             (range_order (map_rank E (trace w) ''tck_Publish'') headers)
                in Publish E (pubs w pub) (context_Background E) routingKey (raw_Marshal K) payload
                     hdrs w))"

definition tck_Received :: "('x, 'x received) nworld \<Rightarrow> 'x received" where
  "tck_Received w = app w"

definition tck_Close ::
  "'x ext \<Rightarrow> 'x ServiceState \<Rightarrow> ('x, 'x received) nworld \<Rightarrow> go_error option \<times> ('x, 'x received) nworld"
where
  "tck_Close E st w = Close E (ss_conn st) w"

section \<open>What the intents declare\<close>

text \<open>
  The endpoint an intent asks for: the pattern and the exchange it names, and for a durable consumer
  of a stream the name of the service with the queue suffix of the intent, if it has one.
\<close>

definition asked_endpoint :: "'x ext \<Rightarrow> string \<Rightarrow> SetupIntent \<Rightarrow> endpoint option" where
  "asked_endpoint E service i =
     (let consume = in_Direction i = ''consume'';
          queue = (if in_QueueSuffix i = '''' then service else service @ ''-'' @ in_QueueSuffix i)
      in if in_Pattern i \<in> {''event-stream'', ''custom-stream''} then Some
           \<lparr>ep_Direction = (if consume then DirectionConsume else DirectionPublish),
            ep_Pattern = (if in_Pattern i = ''event-stream'' then PatternEventStream
              else PatternCustomStream),
            ep_ExchangeName = streamName E (if in_Pattern i = ''event-stream''
              then defaultEventStreamName else in_Exchange i),
            ep_ExchangeKind = ExchangeTopic,
            ep_QueueName = (if consume \<and> \<not> in_Ephemeral i then queue else ''''),
            ep_RoutingKey = (if consume then in_RoutingKey i else ''''),
            ep_MessageType = (if consume then ''json.RawMessage'' else ''''),
            ep_Ephemeral = (consume \<and> in_Ephemeral i)\<rparr>
         else if in_Pattern i = ''service-request'' then Some
           \<lparr>ep_Direction = (if consume then DirectionConsume else DirectionPublish),
            ep_Pattern = PatternServiceRequest,
            ep_ExchangeName = (if consume then service else in_TargetService i),
            ep_ExchangeKind = ExchangeDirect, ep_QueueName = (if consume then service else ''''),
            ep_RoutingKey = (if consume then in_RoutingKey i else ''''), ep_MessageType = '''',
            ep_Ephemeral = False\<rparr>
         else if consume then Some
           \<lparr>ep_Direction = DirectionConsume, ep_Pattern = PatternServiceResponse,
            ep_ExchangeName = in_TargetService i, ep_ExchangeKind = ExchangeHeaders,
            ep_QueueName = service, ep_RoutingKey = in_RoutingKey i,
            ep_MessageType = ''json.RawMessage'', ep_Ephemeral = False\<rparr>
         else None)"

text \<open>
  Where the adapter departs from that: it ignores the queue suffix of an intent for a custom stream,
  and a custom stream with the name of the event stream is declared as the event stream.
\<close>

definition departure :: "string \<Rightarrow> SetupIntent \<Rightarrow> endpoint \<Rightarrow> endpoint" where
  "departure service i ep =
     (if in_Pattern i = ''custom-stream'' then
        ep\<lparr>ep_QueueName := (if ep_QueueName ep = '''' then '''' else service),
           ep_Pattern := (if in_Exchange i = defaultEventStreamName then PatternEventStream
             else ep_Pattern ep)\<rparr>
      else ep)"

definition plain_intent :: "SetupIntent \<Rightarrow> bool" where
  "plain_intent i \<longleftrightarrow> (in_Pattern i = ''custom-stream'' \<longrightarrow>
     in_QueueSuffix i = '''' \<and> in_Exchange i \<noteq> defaultEventStreamName)"

text \<open>The endpoint that the setup function of the adapter for an intent declares.\<close>

definition declared_endpoint :: "'x ext \<Rightarrow> string \<Rightarrow> SetupIntent \<Rightarrow> endpoint option" where
  "declared_endpoint E service i =
     (let stream = (if in_Pattern i = ''event-stream'' then defaultEventStreamName else in_Exchange i);
          consume = in_Direction i = ''consume'';
          suffix = (if in_Pattern i = ''event-stream'' then in_QueueSuffix i else '''')
      in if in_Pattern i \<in> {''event-stream'', ''custom-stream''} then Some
           \<lparr>ep_Direction = (if consume then DirectionConsume else DirectionPublish),
            ep_Pattern = stream_pattern stream, ep_ExchangeName = streamName E stream,
            ep_ExchangeKind = ExchangeTopic,
            ep_QueueName = (if consume \<and> \<not> in_Ephemeral i
              then service @ (if suffix = '''' then '''' else ''-'' @ suffix) else ''''),
            ep_RoutingKey = (if consume then in_RoutingKey i else ''''),
            ep_MessageType = (if consume then ''json.RawMessage'' else ''''),
            ep_Ephemeral = (consume \<and> in_Ephemeral i)\<rparr>
         else if in_Pattern i = ''service-request'' then Some
           \<lparr>ep_Direction = (if consume then DirectionConsume else DirectionPublish),
            ep_Pattern = PatternServiceRequest,
            ep_ExchangeName = (if consume then service else in_TargetService i),
            ep_ExchangeKind = ExchangeDirect, ep_QueueName = (if consume then service else ''''),
            ep_RoutingKey = (if consume then in_RoutingKey i else ''''), ep_MessageType = '''',
            ep_Ephemeral = False\<rparr>
         else if consume then Some
           \<lparr>ep_Direction = DirectionConsume, ep_Pattern = PatternServiceResponse,
            ep_ExchangeName = in_TargetService i, ep_ExchangeKind = ExchangeHeaders,
            ep_QueueName = service, ep_RoutingKey = in_RoutingKey i,
            ep_MessageType = ''json.RawMessage'', ep_Ephemeral = False\<rparr>
         else None)"

lemma declared_endpoint_asked:
  "service \<noteq> '''' \<Longrightarrow>
   declared_endpoint E service i = map_option (departure service i) (asked_endpoint E service i)"
  by (simp add: declared_endpoint_def asked_endpoint_def departure_def stream_pattern_def Let_def)

lemma departure_plain:
  "plain_intent i \<Longrightarrow> map_option (departure service i) (asked_endpoint E service i) = asked_endpoint E service i"
  by (auto simp: plain_intent_def departure_def asked_endpoint_def Let_def)

text \<open>A setup function that, when it succeeds, declares just the given endpoint.\<close>

definition declares :: "string \<Rightarrow> endpoint \<Rightarrow> ('x, 'app) Setup \<Rightarrow> bool" where
  "declares service ep f \<longleftrightarrow>
     (\<forall>c w c' w'. conn_serviceName c = service \<longrightarrow> f c w = Some (None, c', w') \<longrightarrow>
        conn_serviceName c' = service \<and>
        conn_topology c' = (conn_topology c)\<lparr>tp_Endpoints := tp_Endpoints (conn_topology c) @ [ep]\<rparr>)"

lemma declares_addEndpoint:
  assumes "\<And>c w c' w'. conn_serviceName c = service \<Longrightarrow> f c w = Some (None, c', w') \<Longrightarrow>
    \<exists>c0. c' = addEndpoint ep c0 \<and> conn_serviceName c0 = conn_serviceName c \<and>
      conn_topology c0 = conn_topology c"
  shows "declares service ep f"
  using assms by (fastforce simp: declares_def)

lemma declares_consumer:
  assumes "newConsumerConfig E (streamName E stream) k e h service opts = Inr cfg"
  shows "declares service
    \<lparr>ep_Direction = DirectionConsume, ep_Pattern = stream_pattern stream,
     ep_ExchangeName = streamName E stream, ep_ExchangeKind = ExchangeTopic,
     ep_QueueName = cc_consumerName cfg, ep_RoutingKey = k, ep_MessageType = t,
     ep_Ephemeral = e\<rparr> (stream_consumer E e t h stream k opts)"
  by (rule declares_addEndpoint) (auto simp: stream_consumer_def assms)

lemma declares_requests:
  "declares service
    \<lparr>ep_Direction = DirectionConsume, ep_Pattern = PatternServiceRequest,
     ep_ExchangeName = service, ep_ExchangeKind = ExchangeDirect, ep_QueueName = service,
     ep_RoutingKey = k, ep_MessageType = t, ep_Ephemeral = False\<rparr> (core_setup E cb what t k)"
proof (rule declares_addEndpoint)
  fix c w c' w'
  assume c: "conn_serviceName c = service" "core_setup E cb what t k c w = Some (None, c', w')"
  from core_setup_succeeds [OF c(2)] obtain subs where "c' = addEndpoint
    \<lparr>ep_Direction = DirectionConsume, ep_Pattern = PatternServiceRequest,
     ep_ExchangeName = conn_serviceName c, ep_ExchangeKind = ExchangeDirect,
     ep_QueueName = conn_serviceName c, ep_RoutingKey = k, ep_MessageType = t,
     ep_Ephemeral = False\<rparr> (c\<lparr>conn_subscriptions := subs\<rparr>)" by blast
  then show "\<exists>c0. c' = addEndpoint
    \<lparr>ep_Direction = DirectionConsume, ep_Pattern = PatternServiceRequest,
     ep_ExchangeName = service, ep_ExchangeKind = ExchangeDirect, ep_QueueName = service,
     ep_RoutingKey = k, ep_MessageType = t, ep_Ephemeral = False\<rparr> c0 \<and>
      conn_serviceName c0 = conn_serviceName c \<and> conn_topology c0 = conn_topology c"
    by (intro exI [of _ "c\<lparr>conn_subscriptions := subs\<rparr>"]) (simp add: c)
qed

lemma declares_response:
  "declares service
    \<lparr>ep_Direction = DirectionConsume, ep_Pattern = PatternServiceResponse,
     ep_ExchangeName = target, ep_ExchangeKind = ExchangeHeaders, ep_QueueName = service,
     ep_RoutingKey = k, ep_MessageType = t, ep_Ephemeral = False\<rparr> (response_setup t target k)"
  by (rule declares_addEndpoint) (auto simp: response_setup_def)

lemma declares_stream_publisher:
  "declares service
    \<lparr>ep_Direction = DirectionPublish, ep_Pattern = stream_pattern stream,
     ep_ExchangeName = streamName E stream, ep_ExchangeKind = ExchangeTopic, ep_QueueName = '''',
     ep_RoutingKey = '''', ep_MessageType = '''', ep_Ephemeral = False\<rparr>
    (StreamPublisher E stream pid)"
  by (rule declares_addEndpoint) (auto dest!: StreamPublisher_succeeds)

lemma declares_service_publisher:
  "declares service
    \<lparr>ep_Direction = DirectionPublish, ep_Pattern = PatternServiceRequest,
     ep_ExchangeName = target, ep_ExchangeKind = ExchangeDirect, ep_QueueName = '''',
     ep_RoutingKey = '''', ep_MessageType = '''', ep_Ephemeral = False\<rparr>
    (ServicePublisher E target pid)"
  by (rule declares_addEndpoint) (auto simp: ServicePublisher_def Let_def)

lemma consumer_name_plain:
  "\<exists>cfg. newConsumerConfig E stream k False h service [] = Inr cfg \<and> cc_consumerName cfg = service"
  "\<exists>cfg. newConsumerConfig E stream k True h service [] = Inr cfg \<and> cc_consumerName cfg = ''''"
  "sfx \<noteq> '''' \<Longrightarrow> \<exists>cfg. newConsumerConfig E stream k False h service [AddConsumerNameSuffix sfx]
     = Inr cfg \<and> cc_consumerName cfg = service @ ''-'' @ sfx"
  by (simp_all add: newConsumerConfig_def Let_def AddConsumerNameSuffix_def consumerName_def
      consumerNameWithSuffix_def)

text \<open>The setup functions the loop adds for an intent: the one that declares its endpoint.\<close>

definition intent_setups :: "'x ext \<Rightarrow> string \<Rightarrow> SetupIntent \<Rightarrow> ('x, 'app) named_setup list \<Rightarrow> bool" where
  "intent_setups E service i fs \<longleftrightarrow>
     (case declared_endpoint E service i of
        None \<Rightarrow> fs = []
      | Some ep \<Rightarrow> \<exists>n f. fs = [(n, f)] \<and> declares service ep f \<and> pkg_setup E f)"

lemma intent_setups_consumer:
  assumes "newConsumerConfig E (streamName E stream) k e h service opts = Inr cfg"
    and "cc_consumerName cfg = name" and "list_all pkg_option opts"
    and "declared_endpoint E service i = Some
      \<lparr>ep_Direction = DirectionConsume, ep_Pattern = stream_pattern stream,
       ep_ExchangeName = streamName E stream, ep_ExchangeKind = ExchangeTopic,
       ep_QueueName = name, ep_RoutingKey = k, ep_MessageType = t, ep_Ephemeral = e\<rparr>"
  shows "intent_setups E service i [(n, stream_consumer E e t h stream k opts)]"
  using declares_consumer [OF assms(1)] assms(2-4)
  by (auto simp: intent_setups_def intro: pkg_setup.stream)

lemma intent_setups_one:
  assumes "declares service ep f" and "pkg_setup E f" and "declared_endpoint E service i = Some ep"
  shows "intent_setups E service i [(n, f)]"
  using assms by (auto simp: intent_setups_def)

lemmas intent_defs = apply_intent_def Let_def add_setup_def add_publisher_def declared_endpoint_def
  raw_type_def

text \<open>The branches of the loop that add a consumer, and those that add a publisher.\<close>

lemma event_consumer_intent:
  assumes "in_Pattern i = ''event-stream''" and "in_Direction i = ''consume''"
  shows "\<exists>ls' fs. apply_intent E K i ls = Inr ls' \<and> ls_setups ls' = ls_setups ls @ fs \<and>
    intent_setups E service i fs"
proof -
  let ?h = "newWrappedHandler E (raw_type K) captureHandler"
  let ?s = "defaultEventStreamName"
  consider (suffix) "\<not> in_Ephemeral i" "in_QueueSuffix i \<noteq> ''''"
    | (plain) "\<not> in_Ephemeral i" "in_QueueSuffix i = ''''" | (ephemeral) "in_Ephemeral i" by blast
  then show ?thesis
  proof cases
    case suffix
    obtain cfg where cfg: "newConsumerConfig E (streamName E ?s) (in_RoutingKey i) False ?h service
        [AddConsumerNameSuffix (in_QueueSuffix i)] = Inr cfg"
      "cc_consumerName cfg = service @ ''-'' @ in_QueueSuffix i"
      using consumer_name_plain(3) [OF suffix(2)] by blast
    have "intent_setups E service i [(n, stream_consumer E False ''json.RawMessage'' ?h ?s
        (in_RoutingKey i) [AddConsumerNameSuffix (in_QueueSuffix i)])]" for n
      by (rule intent_setups_consumer [OF cfg])
        (use assms suffix in \<open>simp_all add: declared_endpoint_def Let_def pkg_option.intros\<close>)
    then show ?thesis
      using assms suffix by (simp add: intent_defs EventStreamConsumer_def StreamConsumer_eq)
  next
    case plain
    obtain cfg where cfg: "newConsumerConfig E (streamName E ?s) (in_RoutingKey i) False ?h service []
        = Inr cfg" "cc_consumerName cfg = service"
      using consumer_name_plain(1) by blast
    have "intent_setups E service i [(n, stream_consumer E False ''json.RawMessage'' ?h ?s
        (in_RoutingKey i) [])]" for n
      by (rule intent_setups_consumer [OF cfg])
        (use assms plain in \<open>simp_all add: declared_endpoint_def Let_def\<close>)
    then show ?thesis
      using assms plain by (simp add: intent_defs EventStreamConsumer_def StreamConsumer_eq)
  next
    case ephemeral
    obtain cfg where cfg: "newConsumerConfig E (streamName E ?s) (in_RoutingKey i) True ?h service []
        = Inr cfg" "cc_consumerName cfg = ''''"
      using consumer_name_plain(2) by blast
    have "intent_setups E service i [(n, stream_consumer E True ''json.RawMessage'' ?h ?s
        (in_RoutingKey i) [])]" for n
      by (rule intent_setups_consumer [OF cfg])
        (use assms ephemeral in \<open>simp_all add: declared_endpoint_def Let_def\<close>)
    then show ?thesis
      using assms ephemeral
      by (simp add: intent_defs TransientEventStreamConsumer_def TransientStreamConsumer_eq)
  qed
qed

lemma custom_consumer_intent:
  assumes "in_Pattern i = ''custom-stream''" and "in_Direction i = ''consume''"
  shows "\<exists>ls' fs. apply_intent E K i ls = Inr ls' \<and> ls_setups ls' = ls_setups ls @ fs \<and>
    intent_setups E service i fs"
proof -
  let ?h = "newWrappedHandler E (raw_type K) captureHandler"
  let ?s = "in_Exchange i"
  obtain cfg where cfg: "newConsumerConfig E (streamName E ?s) (in_RoutingKey i) (in_Ephemeral i) ?h
      service [] = Inr cfg" "cc_consumerName cfg = (if in_Ephemeral i then '''' else service)"
  proof (cases "in_Ephemeral i")
    case True
    with that consumer_name_plain(2) [of E "streamName E ?s" "in_RoutingKey i" ?h service]
    show ?thesis by auto
  next
    case False
    with that consumer_name_plain(1) [of E "streamName E ?s" "in_RoutingKey i" ?h service]
    show ?thesis by auto
  qed
  have "intent_setups E service i [(n, stream_consumer E (in_Ephemeral i) ''json.RawMessage'' ?h ?s
      (in_RoutingKey i) [])]" for n
    by (rule intent_setups_consumer [OF cfg])
      (use assms in \<open>simp_all add: declared_endpoint_def Let_def\<close>)
  then show ?thesis
    using assms by (cases "in_Ephemeral i")
      (simp_all add: intent_defs StreamConsumer_eq TransientStreamConsumer_eq)
qed

lemma publisher_intent:
  assumes "in_Pattern i \<in> {''event-stream'', ''custom-stream'', ''service-request''}"
    and "in_Direction i = ''publish''"
  shows "\<exists>ls' fs. apply_intent E K i ls = Inr ls' \<and> ls_setups ls' = ls_setups ls @ fs \<and>
    intent_setups E service i fs"
  using assms
  by (auto simp: intent_defs EventStreamPublisher_def
      intro!: intent_setups_one [OF declares_stream_publisher pkg_setup.stream_publisher]
        intent_setups_one [OF declares_service_publisher pkg_setup.service_publisher])

lemma service_intent:
  assumes "in_Pattern i \<in> {''service-request'', ''service-response''}"
    and "in_Direction i = ''consume'' \<or> in_Pattern i = ''service-response'' \<and> in_Direction i = ''publish''"
  shows "\<exists>ls' fs. apply_intent E K i ls = Inr ls' \<and> ls_setups ls' = ls_setups ls @ fs \<and>
    intent_setups E service i fs"
  using assms
  by (auto simp: intent_defs RequestResponseHandler_eq ServiceResponseConsumer_eq
      intro!: intent_setups_one [OF declares_requests pkg_setup.core [OF core_cb.intros(2)]]
        intent_setups_one [OF declares_response pkg_setup.response])
    (simp add: intent_setups_def declared_endpoint_def)

lemma apply_intent_setups:
  assumes "apply_intent E K i ls = Inr ls'"
  shows "\<exists>fs. ls_setups ls' = ls_setups ls @ fs \<and> intent_setups E service i fs"
proof -
  consider (publish) "in_Pattern i \<in> {''event-stream'', ''custom-stream'', ''service-request''}"
      "in_Direction i = ''publish''"
    | (event) "in_Pattern i = ''event-stream''" "in_Direction i = ''consume''"
    | (custom) "in_Pattern i = ''custom-stream''" "in_Direction i = ''consume''"
    | (service) "in_Pattern i \<in> {''service-request'', ''service-response''}"
      "in_Direction i = ''consume'' \<or> in_Pattern i = ''service-response'' \<and> in_Direction i = ''publish''"
    using assms by (simp add: apply_intent_def Let_def split: if_splits)
  then have "\<exists>ls'' fs. apply_intent E K i ls = Inr ls'' \<and> ls_setups ls'' = ls_setups ls @ fs \<and>
      intent_setups E service i fs"
    by cases (blast intro: publisher_intent event_consumer_intent custom_consumer_intent
        service_intent)+
  with assms show ?thesis by auto
qed

text \<open>All intents: a list of setup functions that declares all endpoints, in order.\<close>

lemma apply_intents_setups:
  "apply_intents E K is ls = Inr ls' \<Longrightarrow>
   \<exists>fs. ls_setups ls' = ls_setups ls @ fs \<and> (\<forall>f \<in> set fs. pkg_setup E (snd f)) \<and>
     list_all2 (declares service) (List.map_filter (declared_endpoint E service) is) (map snd fs)"
proof (induction "is" arbitrary: ls)
  case Nil
  then show ?case by (simp add: map_filter_simps)
next
  case (Cons i "is")
  then obtain ls1 where i: "apply_intent E K i ls = Inr ls1"
    and rest: "apply_intents E K is ls1 = Inr ls'"
    by (auto split: sum.splits)
  from apply_intent_setups [OF i, of service] obtain fs where
    fs: "ls_setups ls1 = ls_setups ls @ fs" "intent_setups E service i fs" by blast
  from Cons.IH [OF rest] obtain gs where gs: "ls_setups ls' = ls_setups ls1 @ gs"
    "\<forall>f \<in> set gs. pkg_setup E (snd f)"
    "list_all2 (declares service) (List.map_filter (declared_endpoint E service) is) (map snd gs)"
    by blast
  from fs(2) have
    "list_all2 (declares service) (List.map_filter (declared_endpoint E service) [i]) (map snd fs)"
    "\<forall>f \<in> set fs. pkg_setup E (snd f)"
    by (auto simp: intent_setups_def map_filter_simps split: option.splits)
  moreover have "List.map_filter (declared_endpoint E service) (i # is)
      = List.map_filter (declared_endpoint E service) [i] @ List.map_filter (declared_endpoint E service) is"
    by (simp add: map_filter_simps split: option.split)
  ultimately show ?case
    using fs(1) gs by (intro exI [of _ "fs @ gs"]) (auto intro: list_all2_appendI)
qed

lemma run_setups_declares:
  assumes "list_all2 (declares service) eps (map snd fs)" and "conn_serviceName c = service"
    and "run_setups E fs c w = Some (None, c', w')"
  shows "conn_topology c' = (conn_topology c)
    \<lparr>tp_Endpoints := tp_Endpoints (conn_topology c) @ eps\<rparr>"
  using assms
proof (induction fs arbitrary: eps c w)
  case Nil
  then show ?case by simp
next
  case (Cons f fs)
  then obtain ep eps' where eps: "eps = ep # eps'" "declares service ep (snd f)"
    "list_all2 (declares service) eps' (map snd fs)"
    by (auto simp: list_all2_Cons2)
  from Cons.prems(3) obtain c1 w1 where f: "snd f c w = Some (None, c1, w1)"
    and rest: "run_setups E fs c1 w1 = Some (None, c', w')"
    by (auto simp: bind_eq_Some_conv split: option.splits)
  from eps(2) f Cons.prems(2) have "conn_serviceName c1 = service" and
    c1: "conn_topology c1 = (conn_topology c)\<lparr>tp_Endpoints := tp_Endpoints (conn_topology c) @ [ep]\<rparr>"
    by (auto simp: declares_def)
  from Cons.IH [OF eps(3) this(1) rest] show ?case by (simp add: c1 eps(1))
qed

section \<open>Wired publishers\<close>

text \<open>No setup function takes the wiring of a publisher away again.\<close>

definition wired :: "nat \<Rightarrow> ('x, 'app) nworld \<Rightarrow> bool" where
  "wired pid w \<longleftrightarrow> p_publishFn (pubs w pid) \<noteq> None"

lemma pkg_setup_wired:
  assumes "pkg_setup E f" and "f c w = Some (r, c', w')" and "wired pid w"
  shows "wired pid w'"
  using assms(1)
proof cases
  case config
  from config_setup_frame(1) [OF config assms(2)] assms(3) show ?thesis by simp
next
  case (stream opts e t h st k)
  from stream_consumer_result(1) [OF assms(2) [unfolded stream]] assms(3) show ?thesis by simp
next
  case (core cb what t k)
  from core_setup_result(3) [OF assms(2) [unfolded core]] assms(3) show ?thesis
    by (simp add: wired_def)
next
  case (response t target k)
  with assms(2,3) show ?thesis by (auto simp: response_setup_def)
next
  case (stream_publisher st pid')
  with assms(2,3) show ?thesis
    by (auto simp: wired_def StreamPublisher_def ensureStream_eq Let_def publisher_setup_def
        split: if_splits option.splits)
next
  case (service_publisher target pid')
  with assms(2,3) show ?thesis
    by (auto simp: wired_def ServicePublisher_def Let_def publisher_setup_def split: if_splits)
qed

lemma run_setups_wired:
  "\<forall>f \<in> set fs. pkg_setup E (snd f) \<Longrightarrow> run_setups E fs c w = Some (r, c', w') \<Longrightarrow> wired pid w \<Longrightarrow>
   wired pid w'"
proof (induction fs arbitrary: c w)
  case Nil
  then show ?case by simp
next
  case (Cons f fs)
  then obtain e c1 w1 where "pkg_setup E (snd f)" "snd f c w = Some (e, c1, w1)"
    by (auto simp: bind_eq_Some_conv)
  with Cons pkg_setup_wired [OF this] show ?case by (cases e) auto
qed

text \<open>A setup function that wires a publisher of a live connection.\<close>

definition wires :: "nat \<Rightarrow> ('x, 'app) Setup \<Rightarrow> bool" where
  "wires pid f \<longleftrightarrow>
     (\<forall>c w c' w'. \<not> conn_collectMode c \<longrightarrow> f c w = Some (None, c', w') \<longrightarrow> wired pid w')"

lemma wires_publishers:
  "wires pid (StreamPublisher E stream pid)" "wires pid (EventStreamPublisher E pid)"
  "wires pid (ServicePublisher E target pid)"
  by (auto simp: wires_def wired_def EventStreamPublisher_def StreamPublisher_def ServicePublisher_def
      Let_def ensureStream_eq publisher_setup_def split: if_splits option.splits)

lemma run_setups_wires:
  assumes "\<forall>f \<in> set fs. pkg_setup E (snd f)" and "run_setups E fs c w = Some (None, c', w')"
    and "\<not> conn_collectMode c" and "f \<in> set fs" and "wires pid (snd f)"
  shows "wired pid w'"
  using assms
proof (induction fs arbitrary: c w)
  case Nil
  then show ?case by simp
next
  case (Cons g fs)
  then obtain c1 w1 where g: "pkg_setup E (snd g)" "snd g c w = Some (None, c1, w1)"
    and rest: "run_setups E fs c1 w1 = Some (None, c', w')"
    by (auto simp: bind_eq_Some_conv split: option.splits)
  have live: "\<not> conn_collectMode c1"
    using pkg.session [OF g] Cons.prems(3) by (simp add: same_session_def)
  show ?case
  proof (cases "g = f")
    case True
    with Cons.prems(3,5) g(2) have "wired pid w1" by (auto simp: wires_def)
    with run_setups_wired [OF _ rest] Cons.prems(1) show ?thesis by simp
  next
    case False
    with Cons.IH [OF _ rest live] Cons.prems(1,4,5) show ?thesis by auto
  qed
qed

text \<open>Every key the loop files a publisher under belongs to a setup function that wires it.\<close>

lemma apply_intent_wires:
  assumes "apply_intent E K i ls = Inr ls'"
    and "\<forall>pk pid. ls_publishers ls pk = Some pid \<longrightarrow> (\<exists>f \<in> set (ls_setups ls). wires pid (snd f))"
  shows "\<forall>pk pid. ls_publishers ls' pk = Some pid \<longrightarrow> (\<exists>f \<in> set (ls_setups ls'). wires pid (snd f))"
  using assms
  by (auto simp: apply_intent_def Let_def add_setup_def add_publisher_def wires_publishers
      split: if_splits)

lemma apply_intents_wires:
  assumes "apply_intents E K is ls = Inr ls'"
    and "\<forall>pk pid. ls_publishers ls pk = Some pid \<longrightarrow> (\<exists>f \<in> set (ls_setups ls). wires pid (snd f))"
  shows "\<forall>pk pid. ls_publishers ls' pk = Some pid \<longrightarrow> (\<exists>f \<in> set (ls_setups ls'). wires pid (snd f))"
  using assms
proof (induction "is" arbitrary: ls)
  case Nil
  then show ?case by simp
next
  case (Cons i "is")
  then obtain ls1 where i: "apply_intent E K i ls = Inr ls1"
    and rest: "apply_intents E K is ls1 = Inr ls'"
    by (auto split: sum.splits)
  from Cons.IH [OF rest apply_intent_wires [OF i Cons.prems(2)]] show ?case .
qed

section \<open>Recording handlers\<close>

text \<open>
  A setup function that leaves notifications and span names alone and whose collected
  configurations all have the given handler.
\<close>

definition collects_only :: "('x, 'app) wrappedHandler \<Rightarrow> ('x, 'app) Setup \<Rightarrow> bool" where
  "collects_only h f \<longleftrightarrow>
     (\<forall>c w c' w'. f c w = Some (None, c', w') \<longrightarrow>
        conn_notificationCh c' = conn_notificationCh c \<and> conn_errorCh c' = conn_errorCh c \<and>
        conn_spanNameFn c' = conn_spanNameFn c \<and>
        (\<exists>cfgs. conn_pendingJSConsumers c' = conn_pendingJSConsumers c @ cfgs \<and>
           (\<forall>cfg \<in> set cfgs. cc_handler cfg = h)))"

lemma addEndpoint_notifications [simp]:
  "conn_notificationCh (addEndpoint ep c) = conn_notificationCh c"
  "conn_errorCh (addEndpoint ep c) = conn_errorCh c"
  "conn_spanNameFn (addEndpoint ep c) = conn_spanNameFn c"
  by (simp_all add: addEndpoint_def)

lemma collects_only_consumer:
  "collects_only h (stream_consumer E e t h stream k [])"
  "collects_only h (stream_consumer E e t h stream k [AddConsumerNameSuffix sfx])"
  by (auto simp: collects_only_def stream_consumer_def newConsumerConfig_def Let_def
      AddConsumerNameSuffix_def split: sum.splits if_splits)

lemma collects_only_core: "collects_only h (core_setup E cb what t k)"
  by (auto simp: collects_only_def dest!: core_setup_succeeds)

lemma collects_only_rest:
  "collects_only h (response_setup t target k)" "collects_only h (StreamPublisher E stream pid)"
  "collects_only h (ServicePublisher E target pid)"
  by (auto simp: collects_only_def response_setup_def ServicePublisher_def Let_def
      dest!: StreamPublisher_succeeds)

lemma apply_intent_collects:
  assumes "apply_intent E K i ls = Inr ls'"
    and "\<forall>f \<in> set (ls_setups ls). collects_only (newWrappedHandler E (raw_type K) captureHandler) (snd f)"
  shows "\<forall>f \<in> set (ls_setups ls'). collects_only (newWrappedHandler E (raw_type K) captureHandler) (snd f)"
  using assms
  by (auto simp: apply_intent_def Let_def add_setup_def add_publisher_def EventStreamConsumer_def
      TransientEventStreamConsumer_def StreamConsumer_eq TransientStreamConsumer_eq
      RequestResponseHandler_eq ServiceResponseConsumer_eq EventStreamPublisher_def
      collects_only_consumer collects_only_core collects_only_rest split: if_splits)

lemma apply_intents_collects:
  "apply_intents E K is ls = Inr ls' \<Longrightarrow>
   \<forall>f \<in> set (ls_setups ls). collects_only (newWrappedHandler E (raw_type K) captureHandler) (snd f) \<Longrightarrow>
   \<forall>f \<in> set (ls_setups ls'). collects_only (newWrappedHandler E (raw_type K) captureHandler) (snd f)"
proof (induction "is" arbitrary: ls)
  case Nil
  then show ?case by simp
next
  case (Cons i "is")
  then obtain ls1 where "apply_intent E K i ls = Inr ls1" "apply_intents E K is ls1 = Inr ls'"
    by (auto split: sum.splits)
  with Cons.IH apply_intent_collects [OF _ Cons.prems(2)] show ?case by blast
qed

lemma run_setups_collects:
  "\<forall>f \<in> set fs. collects_only h (snd f) \<Longrightarrow> run_setups E fs c w = Some (None, c', w') \<Longrightarrow>
   \<forall>cfg \<in> set (conn_pendingJSConsumers c). cc_handler cfg = h \<Longrightarrow>
   conn_notificationCh c' = conn_notificationCh c \<and> conn_errorCh c' = conn_errorCh c \<and>
   conn_spanNameFn c' = conn_spanNameFn c \<and>
   (\<forall>cfg \<in> set (conn_pendingJSConsumers c'). cc_handler cfg = h)"
proof (induction fs arbitrary: c w)
  case Nil
  then show ?case by simp
next
  case (Cons f fs)
  then obtain c1 w1 where f: "snd f c w = Some (None, c1, w1)"
    and rest: "run_setups E fs c1 w1 = Some (None, c', w')"
    by (auto simp: bind_eq_Some_conv split: option.splits)
  from Cons.prems(1) have "collects_only h (snd f)" by simp
  with f Cons.prems(3) have c1: "conn_notificationCh c1 = conn_notificationCh c"
    "conn_errorCh c1 = conn_errorCh c" "conn_spanNameFn c1 = conn_spanNameFn c"
    "\<forall>cfg \<in> set (conn_pendingJSConsumers c1). cc_handler cfg = h"
    unfolding collects_only_def by fastforce+
  from Cons.IH [OF _ rest c1(4)] Cons.prems(1) c1 show ?case by simp
qed

lemma groups_of_members: "g \<in> set (groups_of cfgs) \<Longrightarrow> set g \<subseteq> set cfgs"
  by (auto simp: groups_of_def)

lemma rkh_add_handlers: "h' \<in> snd ` set (rkh_add t p h) \<Longrightarrow> h' = h \<or> h' \<in> snd ` set t"
  unfolding rkh_add_def by (induction t) (auto split: if_splits)

lemma fold_rkh_add_handlers:
  "h' \<in> snd ` set (fold (\<lambda>cfg t. rkh_add t (cc_routingKey cfg) (cc_handler cfg)) g t) \<Longrightarrow>
   h' \<in> snd ` set t \<or> h' \<in> cc_handler ` set g"
proof (induction g arbitrary: t)
  case Nil
  then show ?case by simp
next
  case (Cons cfg g)
  from Cons.IH [of "rkh_add t (cc_routingKey cfg) (cc_handler cfg)"] Cons.prems
  have "h' \<in> snd ` set (rkh_add t (cc_routingKey cfg) (cc_handler cfg)) \<or> h' \<in> cc_handler ` set g"
    by simp
  with rkh_add_handlers [of h' t "cc_routingKey cfg" "cc_handler cfg"]
  have "h' \<in> snd ` set t \<or> h' = cc_handler cfg \<or> h' \<in> cc_handler ` set g" by blast
  then show ?case by (simp only: list.set image_insert insert_iff)
qed

lemma group_consumer_handlers:
  "snd ` set (jsc_handlers (group_consumer E c first g)) \<subseteq> cc_handler ` set g"
  using fold_rkh_add_handlers [where t = "[]" and g = g]
  by (simp add: group_consumer_def) blast

section \<open>Properties of a started service\<close>

text \<open>What a successful \<open>StartService\<close> went through.\<close>

lemma StartService_started:
  assumes "StartService E K url service intents base w = Some (Inr st, w')"
  obtains ls c1 w1 w2 where
    "apply_intents E K intents
       \<lparr>ls_setups = [], ls_publishers = Map.empty, ls_publisherKeys = [], ls_next = base\<rparr> = Inr ls"
    "run_setups E (ls_setups ls) (connected (newConnection service url []))
       (after_connect (newConnection service url [])
         (w\<lparr>pubs := (\<lambda>i. if base \<le> i then NewPublisher else pubs w i), app := []\<rparr>))
     = Some (None, c1, w1)"
    "startPendingJSConsumers E c1 w1 = Some (None, (ss_conn st)\<lparr>conn_started := conn_started c1\<rparr>, w2)"
    "w' = log_at LevelInfo ''connection started'' w2"
    "ss_Topology st = Topology (ss_conn st)" "ss_publishers st = ls_publishers ls"
    "ss_PublisherKeys st = ls_publisherKeys ls" "service \<noteq> ''''"
proof -
  let ?c = "newConnection service url [] :: ('a, 'a received) connection"
  let ?w = "w\<lparr>pubs := (\<lambda>i. if base \<le> i then NewPublisher else pubs w i), app := []\<rparr>"
  from assms obtain ls where ls: "apply_intents E K intents
      \<lparr>ls_setups = [], ls_publishers = Map.empty, ls_publisherKeys = [], ls_next = base\<rparr> = Inr ls"
    by (cases "apply_intents E K intents \<lparr>ls_setups = [], ls_publishers = Map.empty,
        ls_publisherKeys = [], ls_next = base\<rparr>") (simp_all add: StartService_def)
  have "NewConnection service url [] = Inr ?c" and name: "service \<noteq> ''''"
    using assms ls by (simp_all add: StartService_def NewConnection_def split: if_splits)
  with assms ls obtain e c' w'' where run: "Start E (ls_setups ls) ?c ?w = Some (e, c', w'')"
    by (cases "Start E (ls_setups ls) ?c ?w") (auto simp: StartService_def)
  with assms ls \<open>NewConnection service url [] = Inr ?c\<close>
  have start: "Start E (ls_setups ls) ?c ?w = Some (None, c', w')"
    and st: "st = \<lparr>ss_Topology = Topology c', ss_PublisherKeys = ls_publisherKeys ls,
        ss_publishers = ls_publishers ls, ss_conn = c'\<rparr>"
    by (simp_all add: StartService_def split: option.splits)
  have "\<not> conn_started ?c" "\<not> conn_collectMode ?c"
    by (simp_all add: newConnection_def zero_connection_def)
  from this start show thesis
  proof (cases rule: Start_live)
    case (Started c1 w1 c2 w2)
    have "conn_started c2 = conn_started c1"
      by (rule startPending_result [OF Started(4)]) simp
    then have "c2 = c'\<lparr>conn_started := conn_started c1\<rparr>" by (simp add: Started(5))
    with that [OF ls] Started(3,4,6) st name show thesis by simp
  qed simp_all
qed

text \<open>
  C35: What a service started from intents declares. If \<open>StartService\<close> succeeds, the topology of its
  state names the service and lists, in the order of the intents, one endpoint for each of them; only
  a service response to publish, which needs no setup, has none. Each is the endpoint its intent asks
  for (pattern, exchange, durable queue name with suffix, routing key, ephemeral flag), except for
  intents for a custom stream: their queue suffix is dropped, and one on the event stream is declared
  as such. Without such intents the topology is exactly what the intents ask for.
\<close>

theorem StartService_topology:
  assumes "StartService E K url service intents base w = Some (Inr st, w')"
  shows "ss_Topology st =
    \<lparr>tp_Transport = TransportNATS, tp_ServiceName = service,
     tp_Endpoints = List.map_filter (\<lambda>i. map_option (departure service i) (asked_endpoint E service i))
       intents\<rparr> \<and>
    (list_all plain_intent intents \<longrightarrow>
       tp_Endpoints (ss_Topology st) = List.map_filter (asked_endpoint E service) intents)"
  using assms
proof (rule StartService_started)
  fix ls c1 w1 w2
  let ?c = "connected (newConnection service url []) :: ('a, 'a received) connection"
  assume ls: "apply_intents E K intents
       \<lparr>ls_setups = [], ls_publishers = Map.empty, ls_publisherKeys = [], ls_next = base\<rparr> = Inr ls"
    and run: "run_setups E (ls_setups ls) ?c (after_connect (newConnection service url [])
         (w\<lparr>pubs := (\<lambda>i. if base \<le> i then NewPublisher else pubs w i), app := []\<rparr>))
       = Some (None, c1, w1)"
    and pend: "startPendingJSConsumers E c1 w1
       = Some (None, (ss_conn st)\<lparr>conn_started := conn_started c1\<rparr>, w2)"
    and st: "ss_Topology st = Topology (ss_conn st)" and name: "service \<noteq> ''''"
  have asked: "declared_endpoint E service
      = (\<lambda>i. map_option (departure service i) (asked_endpoint E service i))"
    using declared_endpoint_asked [OF name] by (rule ext)
  have plain: "List.map_filter (\<lambda>i. map_option (departure service i) (asked_endpoint E service i)) is
      = List.map_filter (asked_endpoint E service) is" if "list_all plain_intent is" for "is"
    using that by (induction "is") (simp_all add: map_filter_simps departure_plain split: option.split)
  have "list_all2 (declares service) (List.map_filter (declared_endpoint E service) intents)
      (map snd (ls_setups ls))"
    using apply_intents_setups [OF ls, of service] by auto
  moreover have c: "conn_serviceName ?c = service"
    "conn_topology ?c = \<lparr>tp_Transport = TransportNATS, tp_ServiceName = service, tp_Endpoints = []\<rparr>"
    by (simp_all add: connected_def newConnection_def)
  ultimately have "conn_topology c1 = \<lparr>tp_Transport = TransportNATS, tp_ServiceName = service,
      tp_Endpoints = List.map_filter (declared_endpoint E service) intents\<rparr>"
    using run_setups_declares [OF _ c(1) run] by simp
  moreover have "conn_topology ((ss_conn st)\<lparr>conn_started := conn_started c1\<rparr>) = conn_topology c1"
    by (rule startPending_result [OF pend]) (erule arg_cong [THEN trans], simp)
  ultimately show ?thesis using plain by (simp add: st Topology_def asked)
qed

definition demo_tck :: tck_ext where
  "demo_tck = \<lparr>tck_PublisherKey = (\<lambda>i. in_Pattern i @ '':'' @ in_Exchange i), raw_Unmarshal = Inr,
     raw_Marshal = Inr\<rparr>"

definition demo_intent :: "string \<Rightarrow> string \<Rightarrow> string \<Rightarrow> SetupIntent" where
  "demo_intent pattern direction suffix =
     \<lparr>in_Pattern = pattern, in_Direction = direction, in_RoutingKey = ''Order.Created'',
      in_Ephemeral = False, in_QueueSuffix = suffix, in_Exchange = ''audit'', in_TargetService = ''svc''\<rparr>"

definition demo_intents :: "SetupIntent list" where
  "demo_intents = [demo_intent ''custom-stream'' ''publish'' '''', demo_intent ''event-stream'' ''consume'' ''x'',
     demo_intent ''service-request'' ''consume'' '''']"

definition demo_tck_world :: "(unit, unit received) nworld" where
  "demo_tck_world = \<lparr>trace = [], routingKeyMapperVal = (\<lambda>s. s), app = [],
     nchans = (\<lambda>_. demo_chan 1), echans = (\<lambda>_. demo_chan 0), pubs = (\<lambda>_. NewPublisher),
     js_callbacks = [], core_callbacks = []\<rparr>"

lemma demo_service:
  "\<exists>st w'. StartService demo_ext demo_tck ''nats://localhost'' ''svc'' demo_intents 0 demo_tck_world
     = Some (Inr st, w')"
  by (simp add: StartService_def demo_intents_def demo_intent_def apply_intent_def add_setup_def
      add_publisher_def demo_tck_def NewConnection_def Start_def demo_run_defs
      AddConsumerNameSuffix_def demo_tck_world_def demo_ext_def)

theorem StartService_topology_witness:
  "\<exists>st w'. StartService demo_ext demo_tck ''nats://localhost'' ''svc'' demo_intents 0 demo_tck_world
     = Some (Inr st, w') \<and>
     map ep_QueueName (tp_Endpoints (ss_Topology st)) = ['''', ''svc-x'', ''svc'']"
proof -
  obtain st w' where "StartService demo_ext demo_tck ''nats://localhost'' ''svc'' demo_intents 0
      demo_tck_world = Some (Inr st, w')"
    using demo_service by blast
  with StartService_topology [OF this] show ?thesis
    by (auto simp: demo_intents_def demo_intent_def plain_intent_def asked_endpoint_def Let_def
        defaultEventStreamName_def map_filter_simps)
qed

text \<open>The keys the loop files publishers under, and the keys it reports.\<close>

definition publishes :: "SetupIntent \<Rightarrow> bool" where
  "publishes i \<longleftrightarrow> in_Direction i = ''publish'' \<and> in_Pattern i \<noteq> ''service-response''"

lemma apply_intent_keys:
  assumes "apply_intent E K i ls = Inr ls'"
  shows "dom (ls_publishers ls')
      = dom (ls_publishers ls) \<union> (if publishes i then {tck_PublisherKey K i} else {})"
    and "ls_publisherKeys ls' = ls_publisherKeys ls
      @ (if in_Direction i = ''publish'' then [tck_PublisherKey K i] else [])"
  using assms
  by (auto simp: apply_intent_def publishes_def Let_def add_setup_def add_publisher_def
      split: if_splits)

lemma apply_intents_keys:
  "apply_intents E K is ls = Inr ls' \<Longrightarrow>
   dom (ls_publishers ls')
     = dom (ls_publishers ls) \<union> tck_PublisherKey K ` set (filter publishes is) \<and>
   ls_publisherKeys ls' = ls_publisherKeys ls
     @ map (tck_PublisherKey K) (filter (\<lambda>i. in_Direction i = ''publish'') is)"
proof (induction "is" arbitrary: ls)
  case Nil
  then show ?case by simp
next
  case (Cons i "is")
  then obtain ls1 where "apply_intent E K i ls = Inr ls1" "apply_intents E K is ls1 = Inr ls'"
    by (auto split: sum.splits)
  with Cons.IH [OF this(2)] apply_intent_keys [OF this(1)] show ?case by auto
qed

lemma Publish_wired:
  assumes "p_publishFn p = Some fn"
  shows "\<exists>r w'. Publish E p ctx k marshal msg headers w = Some (r, w') \<and>
    (if (\<forall>h \<in> set headers. validateKey h = None) \<and> \<not> isl (marshal msg)
     then \<exists>m t u. publications (trace w') = publications (trace w) @ [(m, publish_timeout fn)] \<and>
       msg_Subject m = publish_subject E p k \<and> marshal msg = Inr (msg_Data m) \<and>
       trace w' = t @ publish_call fn m # u \<and> r = answer E t (publish_call fn m)
     else r \<noteq> None \<and> publications (trace w') = publications (trace w))"
proof (cases "List.find (\<lambda>h. validateKey h \<noteq> None) headers")
  case (Some h)
  then have "\<not> (\<forall>h \<in> set headers. validateKey h = None)" by (auto simp: find_Some_iff)
  with Publish_invalid(1) [OF Some, of E p ctx k marshal msg w] Publish_invalid(2) [OF Some]
  show ?thesis by (simp del: not_None_eq)
next
  case None
  then have valid: "\<forall>h \<in> set headers. validateKey h = None" by (simp add: find_None_iff)
  show ?thesis
  proof (cases "marshal msg")
    case (Inl e)
    from Publish_unmarshalled [OF None, of marshal msg, OF Inl, of E p ctx k w] Inl show ?thesis by auto
  next
    case (Inr bytes)
    from publishMessage_wired [OF assms, of E ctx k bytes "given_headers E p headers" w]
    obtain r w' m t u where
      "publishMessage E p ctx k (Inr bytes) (given_headers E p headers) w = Some (r, w')"
      "publications (trace w') = publications (trace w) @ [(m, publish_timeout fn)]"
      "msg_Subject m = publish_subject E p k" "msg_Data m = bytes"
      "trace w' = t @ publish_call fn m # u" "r = answer E t (publish_call fn m)"
      by (auto simp: Let_def)
    with valid Inr Publish_valid [OF None, of marshal msg, OF Inr, of E p ctx k w] show ?thesis by auto
  qed
qed

text \<open>The publishers of a started service: one for each intent to publish, and all of them wired.\<close>

lemma StartService_keys:
  assumes "StartService E K url service intents base w = Some (Inr st, w')"
  shows "dom (ss_publishers st) = tck_PublisherKey K ` set (filter publishes intents)"
    and "ss_PublisherKeys st
      = map (tck_PublisherKey K) (filter (\<lambda>i. in_Direction i = ''publish'') intents)"
    and "ss_publishers st key = Some pid \<Longrightarrow> p_publishFn (pubs w' pid) \<noteq> None"
proof -
  let ?c = "connected (newConnection service url []) :: ('a, 'a received) connection"
  obtain ls c1 w1 w2 where ls: "apply_intents E K intents
       \<lparr>ls_setups = [], ls_publishers = Map.empty, ls_publisherKeys = [], ls_next = base\<rparr> = Inr ls"
    and run: "run_setups E (ls_setups ls) ?c (after_connect (newConnection service url [])
         (w\<lparr>pubs := (\<lambda>i. if base \<le> i then NewPublisher else pubs w i), app := []\<rparr>))
       = Some (None, c1, w1)"
    and pend: "startPendingJSConsumers E c1 w1
       = Some (None, (ss_conn st)\<lparr>conn_started := conn_started c1\<rparr>, w2)"
    and w': "w' = log_at LevelInfo ''connection started'' w2"
    and st: "ss_publishers st = ls_publishers ls" "ss_PublisherKeys st = ls_publisherKeys ls"
    using assms by (rule StartService_started)
  show "dom (ss_publishers st) = tck_PublisherKey K ` set (filter publishes intents)"
    "ss_PublisherKeys st = map (tck_PublisherKey K) (filter (\<lambda>i. in_Direction i = ''publish'') intents)"
    using apply_intents_keys [OF ls] by (simp_all add: st)
  assume "ss_publishers st key = Some pid"
  then have "\<exists>f \<in> set (ls_setups ls). wires pid (snd f)"
    using apply_intents_wires [OF ls] by (simp add: st)
  then obtain f where f: "f \<in> set (ls_setups ls)" "wires pid (snd f)" ..
  have pkg: "\<forall>f \<in> set (ls_setups ls). pkg_setup E (snd f)"
    using apply_intents_setups [OF ls] by auto
  have "\<not> conn_collectMode ?c"
    by (simp add: connected_def newConnection_def zero_connection_def)
  from run_setups_wires [OF pkg run this f] startPending_pubs [OF pend]
  show "p_publishFn (pubs w' pid) \<noteq> None" by (simp add: wired_def w')
qed

text \<open>
  C36: A started service can publish through exactly the keys it reports. It reports one key for each
  intent to publish, in order. From then on, as long as its publishers are as \<open>StartService\<close> left
  them, publishing never panics. A key for a service response does nothing. The key of any other
  intent to publish finds a publisher, and the publisher is wired; if no header is reserved and the
  payload can be marshalled, it makes exactly one publication, of the marshalled payload on the
  publisher's subject for the routing key, and the broker's answer to it is the result; otherwise an
  error is returned and nothing published. Every other key is refused by name.
\<close>

theorem tck_publish_spec:
  assumes "StartService E K url service intents base w = Some (Inr st, w')" and "pubs v = pubs w'"
  shows "ss_PublisherKeys st
      = map (tck_PublisherKey K) (filter (\<lambda>i. in_Direction i = ''publish'') intents) \<and>
    (let run = tck_Publish E K st key k payload headers v
     in if take 17 key = ''service-response:'' then run = Some (None, v)
        else if key \<in> tck_PublisherKey K ` set (filter publishes intents) then
          (\<exists>pid fn r v'. ss_publishers st key = Some pid \<and> p_publishFn (pubs v pid) = Some fn \<and>
             run = Some (r, v') \<and>
             (if (\<forall>(hk, hv) \<in> set headers. validateKey \<lparr>h_Key = hk, h_Value = hv\<rparr> = None) \<and>
                 \<not> isl (raw_Marshal K payload)
              then \<exists>m t u. publications (trace v') = publications (trace v) @ [(m, publish_timeout fn)] \<and>
                msg_Subject m = publish_subject E (pubs v pid) k \<and>
                raw_Marshal K payload = Inr (msg_Data m) \<and>
                trace v' = t @ publish_call fn m # u \<and> r = answer E t (publish_call fn m)
              else r \<noteq> None \<and> publications (trace v') = publications (trace v)))
        else run = Some (Some (Plain (''unknown publisher key: '' @ key)), v))"
proof -
  note keys = StartService_keys [OF assms(1)]
  show ?thesis
  proof (cases "ss_publishers st key")
    case None
    then have "key \<notin> tck_PublisherKey K ` set (filter publishes intents)"
      by (simp only: keys(1) [symmetric] domIff simp_thms)
    with None keys(2) show ?thesis by (simp add: tck_Publish_def Let_def)
  next
    case (Some pid)
    then have key: "key \<in> tck_PublisherKey K ` set (filter publishes intents)"
      by (simp only: keys(1) [symmetric] domI)
    obtain fn where fn: "p_publishFn (pubs v pid) = Some fn"
      using keys(3) [OF Some] by (auto simp: assms(2))
    let ?hdrs = "map (\<lambda>(k, v). \<lparr>h_Key = k, h_Value = v\<rparr>)
      (range_order (map_rank E (trace v) ''tck_Publish'') headers)"
    have "(\<forall>h \<in> set ?hdrs. validateKey h = None)
        \<longleftrightarrow> (\<forall>(hk, hv) \<in> set headers. validateKey \<lparr>h_Key = hk, h_Value = hv\<rparr> = None)" by auto
    with Publish_wired [OF fn, of E "context_Background E" k "raw_Marshal K" payload ?hdrs v]
      Some fn key keys(2)
    show ?thesis unfolding tck_Publish_def Let_def by auto
  qed
qed

theorem tck_publish_spec_witness:
  "\<exists>st w' v' m. StartService demo_ext demo_tck ''nats://localhost'' ''svc'' demo_intents 0 demo_tck_world
       = Some (Inr st, w') \<and>
     tck_Publish demo_ext demo_tck st ''custom-stream:audit'' ''Order.Created'' ''{}'' [] w' = Some (None, v') \<and>
     map fst (publications (trace v')) = map fst (publications (trace w')) @ [m] \<and> msg_Data m = ''{}''"
proof -
  obtain st w' where st: "StartService demo_ext demo_tck ''nats://localhost'' ''svc'' demo_intents 0
      demo_tck_world = Some (Inr st, w')"
    using demo_service by blast
  have key: "''custom-stream:audit'' \<in> tck_PublisherKey demo_tck ` set (filter publishes demo_intents)"
    by (simp add: demo_intents_def demo_intent_def demo_tck_def publishes_def)
  have env: "answer demo_ext t x = None" "raw_Marshal demo_tck s = Inr s" for t x s
    by (simp_all add: demo_ext_def demo_tck_def)
  from tck_publish_spec [OF st refl, of "''custom-stream:audit''" "''Order.Created''" "''{}''" "[]"] key
  obtain v' m where
    "tck_Publish demo_ext demo_tck st ''custom-stream:audit'' ''Order.Created'' ''{}'' [] w' = Some (None, v')"
    "map fst (publications (trace v')) = map fst (publications (trace w')) @ [m]" "msg_Data m = ''{}''"
    by (auto simp: Let_def env)
  with st show ?thesis by blast
qed

text \<open>A consumer all of whose handlers record.\<close>

lemma rkh_get_None_iff:
  "rkh_get E rank m k = None \<longleftrightarrow> \<not> list_ex (\<lambda>(p, _). spec_MatchRoutingKey E p k) m"
  by (auto simp: rkh_get_def find_None_iff list_ex_iff)

lemma recording_consumer:
  fixes msg :: js_msg
  assumes "jsc_spanNameFn c \<noteq> None" and "jsc_notificationCh c = None" and "jsc_errorCh c = None"
    and "\<forall>h \<in> snd ` set (jsc_handlers c). h = newWrappedHandler E (raw_type K) captureHandler"
  defines "k \<equiv> routing_key_of_subject (jm_Subject msg)"
  shows "\<exists>v'. handleMessage E c msg v = Some v' \<and>
      (if list_ex (\<lambda>(p, _). spec_MatchRoutingKey E p k) (jsc_handlers c) then
         settlements (trace v') = settlements (trace v) @ [(jm_Id msg, Acked)] \<and>
         (\<exists>rank. app v' = app v @ [\<lparr>rw_RoutingKey = k, rw_Payload = jm_Data msg,
            rw_Metadata = spec_MetadataFromHeaders E (di_Headers (js_delivery_info E c msg k rank)),
            rw_DeliveryInfo = js_delivery_info E c msg k rank\<rparr>])
       else settlements (trace v') = settlements (trace v) @ [(jm_Id msg, Terminated)] \<and>
         app v' = app v)"
proof -
  have h: "newWrappedHandler E (raw_type K) captureHandler ctx ev s = Some (None, s @ [wire_of
      \<lparr>ce_Metadata = ue_Metadata ev, ce_DeliveryInfo = ue_DeliveryInfo ev, ce_Payload = ue_Payload ev\<rparr>])"
    for ctx ev and s :: "'a received"
    by (simp add: newWrappedHandler_def raw_type_def captureHandler_def)
  have "\<forall>h \<in> snd ` set (jsc_handlers c). total_handler h"
    using assms(4) by (auto simp: total_handler_def h)
  moreover have "channels_open (jsc_notificationCh c) (jsc_errorCh c) v"
    by (simp add: channels_open_def assms(2,3))
  ultimately obtain v' where v': "handleMessage E c msg v = Some v'"
    using handleMessage_defined [OF assms(1)] by blast
  then show ?thesis
  proof (cases rule: handleMessage_views)
    case Unhandled
    from Unhandled(1) have "\<not> list_ex (\<lambda>(p, _). spec_MatchRoutingKey E p k) (jsc_handlers c)"
      by (simp add: rkh_get_None_iff k_def)
    with v' Unhandled(2,5) show ?thesis by auto
  next
    case (Handled h ctx result)
    have m: "list_ex (\<lambda>(p, _). spec_MatchRoutingKey E p k) (jsc_handlers c)"
      using Handled(1) rkh_get_None_iff [of E _ "jsc_handlers c" k] by (metis k_def option.distinct(1))
    from assms(4) rkh_get_member [OF Handled(1)] have
      "h = newWrappedHandler E (raw_type K) captureHandler" by blast
    with Handled(2) have "result = None" and r: "app v' = app v @ [
      \<lparr>rw_RoutingKey = k, rw_Payload = jm_Data msg,
       rw_Metadata = spec_MetadataFromHeaders E (di_Headers (js_delivery_info E c msg k
          (map_rank E (trace (eventReceived (jsc_name c) k v)) ''fromNATSHeaders''))),
       rw_DeliveryInfo = js_delivery_info E c msg k
          (map_rank E (trace (eventReceived (jsc_name c) k v)) ''fromNATSHeaders'')\<rparr>]"
      by (simp_all add: h event_of_def k_def wire_of_def js_delivery_info_def)
    with Handled(3) have "settlements (trace v') = settlements (trace v) @ [(jm_Id msg, Acked)]"
      by (simp add: decide_def)
    with v' m r show ?thesis by auto
  qed
qed

text \<open>The JetStream consumers of a started service: all their handlers record, and they announce
  nothing.\<close>

lemma StartService_consumers:
  assumes "StartService E K url service intents base w = Some (Inr st, w')"
    and "(s, cfg, c) \<in> set (drop (length (js_callbacks w)) (js_callbacks w'))"
  shows "jsc_spanNameFn c \<noteq> None" "jsc_notificationCh c = None" "jsc_errorCh c = None"
    "\<forall>h \<in> snd ` set (jsc_handlers c). h = newWrappedHandler E (raw_type K) captureHandler"
proof -
  let ?c = "connected (newConnection service url []) :: ('a, 'a received) connection"
  let ?h = "newWrappedHandler E (raw_type K) captureHandler :: ('a, 'a received) wrappedHandler"
  obtain ls c1 w1 w2 where ls: "apply_intents E K intents
       \<lparr>ls_setups = [], ls_publishers = Map.empty, ls_publisherKeys = [], ls_next = base\<rparr> = Inr ls"
    and run: "run_setups E (ls_setups ls) ?c (after_connect (newConnection service url [])
         (w\<lparr>pubs := (\<lambda>i. if base \<le> i then NewPublisher else pubs w i), app := []\<rparr>))
       = Some (None, c1, w1)"
    and pend: "startPendingJSConsumers E c1 w1
       = Some (None, (ss_conn st)\<lparr>conn_started := conn_started c1\<rparr>, w2)"
    and w': "w' = log_at LevelInfo ''connection started'' w2"
    using assms(1) by (rule StartService_started)
  have pkg: "\<forall>f \<in> set (ls_setups ls). pkg_setup E (snd f)"
    using apply_intents_setups [OF ls] by auto
  have "js_callbacks w2 = js_callbacks w1
      @ map (group_callback E c1) (groups_of (conn_pendingJSConsumers c1))"
    by (rule startPending_result [OF pend]) simp
  moreover from pkg.run_session [OF pkg run] have "js_callbacks w1 = js_callbacks w"
    by (simp add: after_connect_def)
  ultimately have "drop (length (js_callbacks w)) (js_callbacks w')
      = map (group_callback E c1) (groups_of (conn_pendingJSConsumers c1))"
    by (simp add: w')
  with assms(2) obtain g where
    g: "g \<in> set (groups_of (conn_pendingJSConsumers c1))" "c = group_consumer E c1 (hd g) g"
    by (auto simp: group_callback_def)
  have "\<forall>f \<in> set (ls_setups ls). collects_only ?h (snd f)"
    using apply_intents_collects [OF ls] by simp
  from run_setups_collects [OF this run] have c1: "conn_notificationCh c1 = None"
    "conn_errorCh c1 = None" "conn_spanNameFn c1 \<noteq> None"
    "\<forall>cfg \<in> set (conn_pendingJSConsumers c1). cc_handler cfg = ?h"
    by (simp_all add: connected_def with_span_name_def newConnection_def zero_connection_def)
  show "jsc_spanNameFn c \<noteq> None" "jsc_notificationCh c = None" "jsc_errorCh c = None"
    using c1(1-3) by (simp_all add: g(2) group_consumer_def)
  have "cc_handler ` set g \<subseteq> {?h}" using groups_of_members [OF g(1)] c1(4) by fast
  with group_consumer_handlers have "snd ` set (jsc_handlers c) \<subseteq> {?h}"
    unfolding g(2) by (rule subset_trans)
  then show "\<forall>h \<in> snd ` set (jsc_handlers c). h = ?h" by (simp add: subset_iff)
qed

text \<open>
  C37: A started service records what it is sent. Whatever JetStream consumer \<open>StartService\<close>
  registered and whatever message arrives there, now or later, the consumer processes it to the end:
  a message that matches a routing key of the consumer's intents is acknowledged and appears, once
  and last, in the list of received messages, with its own payload, its routing key and its headers;
  any other message is terminated and not recorded.
\<close>

theorem started_service_records:
  assumes "StartService E K url service intents base w = Some (Inr st, w')"
    and "(s, cfg, c) \<in> set (drop (length (js_callbacks w)) (js_callbacks w'))"
  shows "let k = routing_key_of_subject (jm_Subject msg) in
    \<exists>v'. handleMessage E c msg v = Some v' \<and>
      (if list_ex (\<lambda>(p, _). spec_MatchRoutingKey E p k) (jsc_handlers c) then
         settlements (trace v') = settlements (trace v) @ [(jm_Id msg, Acked)] \<and>
         (\<exists>rank. let info = js_delivery_info E c msg k rank in
            tck_Received v' = tck_Received v
              @ [\<lparr>rw_RoutingKey = k, rw_Payload = jm_Data msg,
                  rw_Metadata = spec_MetadataFromHeaders E (di_Headers info), rw_DeliveryInfo = info\<rparr>])
       else settlements (trace v') = settlements (trace v) @ [(jm_Id msg, Terminated)] \<and>
         tck_Received v' = tck_Received v)"
  using StartService_consumers [OF assms] unfolding Let_def tck_Received_def
  by (intro recording_consumer)

theorem started_service_records_witness:
  "\<exists>st w' s cfg c v'. StartService demo_ext demo_tck ''nats://localhost'' ''svc'' demo_intents 0
       demo_tck_world = Some (Inr st, w') \<and>
     (s, cfg, c) \<in> set (js_callbacks w') \<and>
     handleMessage demo_ext c (demo_js_msg 3 ''{}'') w' = Some v' \<and>
     map rw_Payload (tck_Received v') = map rw_Payload (tck_Received w') @ [''{}'']"
proof -
  have "\<exists>st w' s cfg c. StartService demo_ext demo_tck ''nats://localhost'' ''svc'' demo_intents 0
      demo_tck_world = Some (Inr st, w') \<and> js_callbacks w' = [(s, cfg, c)] \<and>
      map fst (jsc_handlers c) = [''Order.Created'']"
    by (simp add: StartService_def demo_intents_def demo_intent_def apply_intent_def add_setup_def
        add_publisher_def demo_tck_def NewConnection_def Start_def demo_run_defs group_consumer_def
        rkh_add_def AddConsumerNameSuffix_def demo_tck_world_def demo_ext_def)
  then obtain st w' s cfg c where st: "StartService demo_ext demo_tck ''nats://localhost'' ''svc''
      demo_intents 0 demo_tck_world = Some (Inr st, w')"
    and cb: "js_callbacks w' = [(s, cfg, c)]" and hs: "map fst (jsc_handlers c) = [''Order.Created'']"
    by (elim exE conjE) (rule that)
  have cb': "(s, cfg, c) \<in> set (drop (length (js_callbacks demo_tck_world)) (js_callbacks w'))"
    by (simp add: cb demo_tck_world_def)
  have k: "routing_key_of_subject (jm_Subject (demo_js_msg 3 ''{}'')) = ''Order.Created''"
    by (simp add: demo_js_msg_def routing_key_of_subject_def)
  have ex: "list_ex (\<lambda>(p, _). spec_MatchRoutingKey demo_ext p ''Order.Created'') (jsc_handlers c)"
    using hs by (auto simp: demo_ext_def list_ex_iff)
  from started_service_records [OF st cb', of "demo_js_msg 3 ''{}''" w'] obtain v' where
    "handleMessage demo_ext c (demo_js_msg 3 ''{}'') w' = Some v'"
    "map rw_Payload (tck_Received v') = map rw_Payload (tck_Received w') @ [jm_Data (demo_js_msg 3 ''{}'')]"
    unfolding Let_def k by (auto simp: ex)
  with st cb show ?thesis
    by (intro exI [of _ st] exI [of _ w'] exI [of _ s] exI [of _ cfg] exI [of _ c] exI [of _ v'])
      (simp add: demo_js_msg_def)
qed

end
