(* ===== verification/Wiring.thy ===== *)
theory Wiring
  imports Session
begin

text \<open>
  The publishers of a session (\<open>publisher.go\<close>, \<open>setup_publisher.go\<close>). A publisher is as
  \<open>NewPublisher\<close> made it, or setup functions have configured it. \<open>Start\<close> also gives it a way to publish;
  \<open>CollectTopology\<close> configures the publishers it is given too, but leaves them without one, or with the
  one they had. Whichever of them ran, failed or were repeated, publishing with a publisher that can
  publish does not panic, and with any other the outbox adapter says so. That the setups of the
  package only produce such publishers is a further law of setup functions (locale \<open>wiring_setups\<close>).
\<close>

section \<open>Well-typed publishers\<close>

text \<open>
  A publisher configured for one of the services \<open>S\<close>: it has a tracer and adds service headers and no
  other, the last one for the service it belongs to. If it sends requests it has its own subjects and
  waits a positive time.
\<close>

definition configured_for :: "string set \<Rightarrow> 'x Publisher \<Rightarrow> bool" where
  "configured_for S p \<longleftrightarrow>
     p_conn p \<and> p_serviceName p \<in> S \<and> p_tracer p \<noteq> None \<and>
     p_defaultHeaders p \<noteq> [] \<and> (\<forall>h \<in> set (p_defaultHeaders p). h_Key h = headerService) \<and>
     h_Value (last (p_defaultHeaders p)) = p_serviceName p \<and>
     (\<forall>timeout. p_publishFn p = Some (CoreRequest timeout) \<longrightarrow> 0 < timeout \<and> p_subjectFn p \<noteq> None)"

definition well_typed :: "string set \<Rightarrow> 'x Publisher \<Rightarrow> bool" where
  "well_typed S p \<longleftrightarrow> p = NewPublisher \<or> configured_for S p"




lemma well_typed_NewPublisher [simp]: "well_typed S NewPublisher"
  by (simp add: well_typed_def)



section \<open>Setup functions that wire publishers\<close>







section \<open>Sessions\<close>





text \<open>The services for which topologies were collected along a run.\<close>

fun collected :: "session_event list \<Rightarrow> string set" where
  "collected [] = {}"
| "collected (TopologyCollected service # ls) = insert service (collected ls)"
| "collected (_ # ls) = collected ls"

lemma collected_append [simp]: "collected (ls @ ls') = collected ls \<union> collected ls'"
  by (induction ls rule: collected.induct) auto





text \<open>
  Collecting works on the publishers themselves: one that a started connection uses keeps its way to
  publish, but has the stream, the service and the tracer of the collecting run from then on.
\<close>

lemma collecting_rewires:
  fixes w :: "('x, 'app) nworld"
  shows "\<exists>T w'. CollectTopology service [StreamPublisher E stream pid] w = Some (Inr T, w') \<and>
    p_publishFn (pubs w' pid) = p_publishFn (pubs w pid) \<and>
    p_stream (pubs w' pid) = streamName E stream \<and> p_serviceName (pubs w' pid) = service \<and>
    p_defaultHeaders (pubs w' pid)
      = p_defaultHeaders (pubs w pid) @ [\<lparr>h_Key = headerService, h_Value = service\<rparr>]"
  by (simp add: CollectTopology_def StreamPublisher_def Let_def publisher_setup_def)

section \<open>Properties\<close>



end
