(* ===== verification/Startup.thy ===== *)
theory Startup
  imports Session_Spec Progress
begin

text \<open>
  \<open>Start\<close> (\<open>connection.go\<close>) in phases. Consumers and subscriptions are live before \<open>Start\<close> returns,
  so that messages are delivered while it still runs setup functions and starts the remaining groups.
  A phase says where \<open>Start\<close> is; a step of it ends with a call to NATS, with a setup function or with
  recording the handle of a consumer, and between two steps anything else can happen. A setup function
  is one step: what it does to its publisher or subscription before it returns is not visible here.
  Without interruption the phases are \<open>Start\<close>.
\<close>

section \<open>Phases\<close>

text \<open>
  Between the calls of \<open>Start\<close>: before connecting, before \<open>jetstream.New\<close>, with setup functions left
  to run, with groups left to start (and the first of them before its stream, its consumer or its
  callback, or with its callback live but its handle not yet among those of the connection), before
  closing the connection after a failure, and after returning. \<open>Idle\<close> is a connection whose \<open>Start\<close> was
  not called.
\<close>

datatype ('x, 'app) phase =
    Idle
  | Returned "go_error option"
  | Collecting "('x, 'app) named_setup list"
  | Connecting "('x, 'app) named_setup list"
  | NewJetStream "('x, 'app) named_setup list"
  | Setting "('x, 'app) named_setup list"
  | Ensuring "('x, 'app) consumerConfig list list"
  | Creating "('x, 'app) consumerConfig list" "('x, 'app) consumerConfig list list"
  | Consuming "('x, 'app) consumerConfig list" "('x, 'app) consumerConfig list list"
  | Recording jsConsumerHandle "('x, 'app) consumerConfig list list"
  | Failing go_error

fun running :: "('x, 'app) phase \<Rightarrow> bool" where
  "running Idle \<longleftrightarrow> False"
| "running (Returned r) \<longleftrightarrow> False"
| "running _ \<longleftrightarrow> True"

definition begin_start ::
  "('x, 'app) named_setup list \<Rightarrow> ('x, 'app) connection \<Rightarrow> ('x, 'app) phase \<times> ('x, 'app) connection"
where
  "begin_start opts c =
     (if conn_started c then (Returned (Some (Known ErrAlreadyStarted)), c)
      else
        (let c = (if conn_spanNameFn c = None
                  then c\<lparr>conn_spanNameFn := Some defaultSpanNameFn\<rparr> else c)
         in (if conn_collectMode c then Collecting opts else Connecting opts, c)))"

definition setup_failed ::
  "'x ext \<Rightarrow> ('x, 'app) named_setup \<Rightarrow> go_error \<Rightarrow> go_error" where
  "setup_failed E f err = wrap_error (ext_error_text E)
     (''setup function <'' @ getSetupFuncName f @ ''> failed'') err"

definition pending_groups :: "('x, 'app) connection \<Rightarrow> ('x, 'app) consumerConfig list list" where
  "pending_groups c =
     (case group_configs (conn_pendingJSConsumers c) Map.empty [] of
        (groups, order) \<Rightarrow> map (\<lambda>key. the (groups key)) order)"

text \<open>The three calls for a group, and recording what the last one returned.\<close>

definition ensure_group ::
  "'x ext \<Rightarrow> ('x, 'app) consumerConfig list \<Rightarrow> ('x, 'app) connection \<Rightarrow> ('x, 'app) nworld
   \<Rightarrow> (go_error option \<times> ('x, 'app) nworld) option" where
  "ensure_group E g c w =
     (case g of
        [] \<Rightarrow> None
      | first # _ \<Rightarrow>
          do {
            (err, w) \<leftarrow> ensureStream E c (cc_stream first) w;
            Some (map_option (wrap_error (ext_error_text E)
              (''failed to ensure stream '' @ cc_stream first)) err, w)
          })"

definition create_group ::
  "'x ext \<Rightarrow> ('x, 'app) consumerConfig list \<Rightarrow> ('x, 'app) connection \<Rightarrow> ('x, 'app) nworld
   \<Rightarrow> go_error option \<times> ('x, 'app) nworld" where
  "create_group E g c w =
     (let first = hd g;
          jsCfg = group_js_config E (conn_consumerDefaults c) first g
      in case perform E (CreateOrUpdateConsumer (cc_stream first) jsCfg) w of
           (err, w) \<Rightarrow> (map_option (wrap_error (ext_error_text E)
             (''failed to create consumer on stream '' @ cc_stream first)) err, w))"

definition consume_group ::
  "'x ext \<Rightarrow> ('x, 'app) consumerConfig list \<Rightarrow> ('x, 'app) connection \<Rightarrow> ('x, 'app) nworld
   \<Rightarrow> (go_error + jsConsumerHandle) \<times> ('x, 'app) nworld" where
  "consume_group E g c w =
     (let first = hd g;
          consumer = group_consumer E c first g;
          jsCfg = group_js_config E (conn_consumerDefaults c) first g
      in case perform E (Consume (cc_stream first) jsCfg) w of
           (Some err, w) \<Rightarrow>
             (Inl (wrap_error (ext_error_text E)
               (''failed to start consuming on stream '' @ cc_stream first) err), w)
         | (None, w) \<Rightarrow>
             (Inr \<lparr>jh_ctx = Some (length (js_callbacks w))\<rparr>,
              w\<lparr>js_callbacks := js_callbacks w @ [(cc_stream first, jsCfg, consumer)]\<rparr>))"

definition record_handle ::
  "jsConsumerHandle \<Rightarrow> ('x, 'app) connection \<Rightarrow> ('x, 'app) connection" where
  "record_handle h c = c\<lparr>conn_consumers := conn_consumers c @ [h]\<rparr>"

fun start_step ::
  "'x ext \<Rightarrow> ('x, 'app) phase \<Rightarrow> ('x, 'app) connection \<Rightarrow> ('x, 'app) nworld
   \<Rightarrow> (('x, 'app) phase \<times> ('x, 'app) connection \<times> ('x, 'app) nworld) option" where
  "start_step E Idle c w = None"
| "start_step E (Returned r) c w = None"
| "start_step E (Collecting []) c w = Some (Returned None, c\<lparr>conn_started := True\<rparr>, w)"
| "start_step E (Collecting (f # fs)) c w =
     do {
       (err, c, w) \<leftarrow> snd f c w;
       Some (case err of Some err \<Rightarrow> Returned (Some (setup_failed E f err)) | None \<Rightarrow> Collecting fs, c, w)
     }"
| "start_step E (Connecting fs) c w =
     (case perform E (NatsConnect (conn_natsURL c) (conn_natsOpts c)) w of
        (Some err, w) \<Rightarrow>
          Some (Returned (Some (wrap_error (ext_error_text E) ''failed to connect to NATS'' err)), c, w)
      | (None, w) \<Rightarrow> Some (NewJetStream fs, c\<lparr>conn_nc := True\<rparr>, w))"
| "start_step E (NewJetStream fs) c w =
     (case perform E JetStreamNew w of
        (Some err, w) \<Rightarrow>
          Some (Failing (wrap_error (ext_error_text E) ''failed to create JetStream context'' err), c, w)
      | (None, w) \<Rightarrow>
          Some (Setting fs, c\<lparr>conn_js := True\<rparr>, log_at LevelInfo ''connected to NATS'' w))"
| "start_step E (Setting []) c w = Some (Ensuring (pending_groups c), c, w)"
| "start_step E (Setting (f # fs)) c w =
     do {
       (err, c, w) \<leftarrow> snd f c w;
       Some (case err of Some err \<Rightarrow> Failing (setup_failed E f err) | None \<Rightarrow> Setting fs, c, w)
     }"
| "start_step E (Ensuring []) c w =
     Some (Returned None, c\<lparr>conn_pendingJSConsumers := []\<rparr>\<lparr>conn_started := True\<rparr>,
       log_at LevelInfo ''connection started'' w)"
| "start_step E (Ensuring (g # gs)) c w =
     do {
       (err, w) \<leftarrow> ensure_group E g c w;
       Some (case err of Some err \<Rightarrow> Failing err | None \<Rightarrow> Creating g gs, c, w)
     }"
| "start_step E (Creating g gs) c w =
     (case create_group E g c w of
        (err, w) \<Rightarrow> Some (case err of Some err \<Rightarrow> Failing err | None \<Rightarrow> Consuming g gs, c, w))"
| "start_step E (Consuming g gs) c w =
     (case consume_group E g c w of
        (r, w) \<Rightarrow> Some (case r of Inl err \<Rightarrow> Failing err | Inr h \<Rightarrow> Recording h gs, c, w))"
| "start_step E (Recording h gs) c w =
     Some (Ensuring gs, record_handle h c, log_at LevelInfo ''started JetStream consumer'' w)"
| "start_step E (Failing err) c w = Some (Returned (Some err), c, emit NcClose w)"

section \<open>The phases end\<close>

text \<open>Every step leaves less to do, whatever the setup functions are.\<close>

fun phase_measure :: "('x, 'app) phase \<Rightarrow> nat \<times> nat" where
  "phase_measure Idle = (0, 0)"
| "phase_measure (Returned r) = (0, 0)"
| "phase_measure (Failing e) = (1, 0)"
| "phase_measure (Ensuring gs) = (2, 4 * length gs)"
| "phase_measure (Creating g gs) = (2, 4 * length gs + 3)"
| "phase_measure (Consuming g gs) = (2, 4 * length gs + 2)"
| "phase_measure (Recording h gs) = (2, 4 * length gs + 1)"
| "phase_measure (Setting fs) = (3, length fs)"
| "phase_measure (NewJetStream fs) = (4, 0)"
| "phase_measure (Connecting fs) = (5, 0)"
| "phase_measure (Collecting fs) = (6, length fs)"

lemma start_step_decreases:
  "start_step E ph c w = Some (ph', c', w') \<Longrightarrow>
   (phase_measure ph', phase_measure ph) \<in> less_than <*lex*> less_than"
  by (cases "(E, ph, c, w)" rule: start_step.cases)
    (auto simp: bind_eq_Some_conv perform_def split: option.splits prod.splits sum.splits)

function run_start ::
  "'x ext \<Rightarrow> ('x, 'app) phase \<Rightarrow> ('x, 'app) connection \<Rightarrow> ('x, 'app) nworld
   \<Rightarrow> (go_error option \<times> ('x, 'app) connection \<times> ('x, 'app) nworld) option" where
  "run_start E ph c w =
     (case ph of
        Returned r \<Rightarrow> Some (r, c, w)
      | _ \<Rightarrow>
          (case start_step E ph c w of
             None \<Rightarrow> None
           | Some (ph', c', w') \<Rightarrow> run_start E ph' c' w'))"
  by pat_completeness auto
termination
  by (relation "inv_image (less_than <*lex*> less_than) (\<lambda>(E, ph, c, w). phase_measure ph)")
    (auto simp del: start_step.simps dest!: start_step_decreases)

declare run_start.simps [simp del]

lemma run_start_Returned [simp]: "run_start E (Returned r) c w = Some (r, c, w)"
  by (simp add: run_start.simps)

lemma run_start_step:
  "running ph \<Longrightarrow> run_start E ph c w
     = do { (ph', c', w') \<leftarrow> start_step E ph c w; run_start E ph' c' w' }"
  by (subst run_start.simps) (cases ph; auto split: option.split)

section \<open>Without interruption the phases are Start\<close>

lemma run_start_Failing [simp]: "run_start E (Failing e) c w = Some (Some e, c, emit NcClose w)"
  by (simp add: run_start_step)

lemma run_start_group:
  "run_start E (Ensuring (g # gs)) c w
     = do { (err, c, w) \<leftarrow> start_group E g c w;
            (case err of Some err \<Rightarrow> Some (Some err, c, emit NcClose w)
             | None \<Rightarrow> run_start E (Ensuring gs) c w) }"
  by (cases g) (auto simp: run_start_step start_group_def ensure_group_def create_group_def
      consume_group_def record_handle_def ensureStream_eq Let_def perform_def split: option.split)

lemma run_start_Ensuring:
  "run_start E (Ensuring gs) c w
     = do { (err, c, w) \<leftarrow> start_list E gs c w;
            (case err of Some err \<Rightarrow> Some (Some err, c, emit NcClose w)
             | None \<Rightarrow> Some (None, c\<lparr>conn_pendingJSConsumers := []\<rparr>\<lparr>conn_started := True\<rparr>,
                 log_at LevelInfo ''connection started'' w)) }"
proof (induction gs arbitrary: c w)
  case Nil
  then show ?case by (simp add: run_start_step)
next
  case (Cons g gs)
  then show ?case
    by (cases "start_group E g c w") (auto simp: run_start_group split: option.split)
qed

lemma pending_groups_eq: "pending_groups c = groups_of (conn_pendingJSConsumers c)"
  by (auto simp: pending_groups_def groups_of_def group_configs_eq Let_def filter_empty_conv)

lemma run_start_pending:
  "run_start E (Ensuring (pending_groups c)) c w
     = do { (err, c, w) \<leftarrow> startPendingJSConsumers E c w;
            (case err of Some err \<Rightarrow> Some (Some err, c, emit NcClose w)
             | None \<Rightarrow> Some (None, c\<lparr>conn_started := True\<rparr>,
                 log_at LevelInfo ''connection started'' w)) }"
  by (cases "start_list E (groups_of (conn_pendingJSConsumers c)) c w")
    (auto simp: run_start_Ensuring startPendingJSConsumers_eq pending_groups_eq split: option.split)

lemma run_start_Setting:
  "run_start E (Setting fs) c w
     = do { (err, c, w) \<leftarrow> run_setups E fs c w;
            (case err of Some err \<Rightarrow> Some (Some err, c, emit NcClose w)
             | None \<Rightarrow>
                 do { (err, c, w) \<leftarrow> startPendingJSConsumers E c w;
                      (case err of Some err \<Rightarrow> Some (Some err, c, emit NcClose w)
                       | None \<Rightarrow> Some (None, c\<lparr>conn_started := True\<rparr>,
                           log_at LevelInfo ''connection started'' w)) }) }"
proof (induction fs arbitrary: c w)
  case Nil
  then show ?case by (simp add: run_start_step [of "Setting []"] run_start_pending)
next
  case (Cons f fs)
  then show ?case
    by (cases "snd f c w") (auto simp: run_start_step [of "Setting (f # fs)"] setup_failed_def
        split: option.split)
qed

lemma run_start_Collecting:
  "run_start E (Collecting fs) c w
     = do { (err, c, w) \<leftarrow> run_setups E fs c w;
            (case err of Some err \<Rightarrow> Some (Some err, c, w)
             | None \<Rightarrow> Some (None, c\<lparr>conn_started := True\<rparr>, w)) }"
proof (induction fs arbitrary: c w)
  case Nil
  then show ?case by (simp add: run_start_step)
next
  case (Cons f fs)
  then show ?case
    by (cases "snd f c w") (auto simp: run_start_step setup_failed_def split: option.split)
qed

lemma Start_in_phases:
  "Start E fs c w = (case begin_start fs c of (ph, c') \<Rightarrow> run_start E ph c' w)"
  by (simp add: Start_def begin_start_def Let_def run_start_Collecting run_start_Setting perform_def
      run_start_step [of "Connecting fs"] run_start_step [of "NewJetStream fs"] split: option.split)

section \<open>What the phases keep\<close>

text \<open>Where \<open>Start\<close> is says what it has done to the connection. Setup functions that are left are safe,
  and no group is empty.\<close>

fun phase_ok :: "'x ext \<Rightarrow> ('x, 'app) phase \<Rightarrow> ('x, 'app) connection \<Rightarrow> bool" where
  "phase_ok E Idle c \<longleftrightarrow> True"
| "phase_ok E (Returned r) c \<longleftrightarrow> (r = None \<longrightarrow> conn_started c)"
| "phase_ok E (Collecting fs) c \<longleftrightarrow> False"
| "phase_ok E (Connecting fs) c \<longleftrightarrow>
     \<not> conn_started c \<and> conn_spanNameFn c \<noteq> None \<and> (\<forall>f \<in> set fs. safe_setup E (snd f))"
| "phase_ok E (NewJetStream fs) c \<longleftrightarrow>
     \<not> conn_started c \<and> conn_spanNameFn c \<noteq> None \<and> (\<forall>f \<in> set fs. safe_setup E (snd f)) \<and> conn_nc c"
| "phase_ok E (Setting fs) c \<longleftrightarrow>
     \<not> conn_started c \<and> conn_spanNameFn c \<noteq> None \<and> (\<forall>f \<in> set fs. safe_setup E (snd f)) \<and>
     conn_nc c \<and> conn_js c"
| "phase_ok E (Ensuring gs) c \<longleftrightarrow>
     \<not> conn_started c \<and> conn_spanNameFn c \<noteq> None \<and> [] \<notin> set gs \<and> conn_nc c \<and> conn_js c"
| "phase_ok E (Creating g gs) c \<longleftrightarrow>
     \<not> conn_started c \<and> conn_spanNameFn c \<noteq> None \<and> [] \<notin> set (g # gs) \<and> conn_nc c \<and> conn_js c"
| "phase_ok E (Consuming g gs) c \<longleftrightarrow>
     \<not> conn_started c \<and> conn_spanNameFn c \<noteq> None \<and> [] \<notin> set (g # gs) \<and> conn_nc c \<and> conn_js c"
| "phase_ok E (Recording h gs) c \<longleftrightarrow>
     \<not> conn_started c \<and> conn_spanNameFn c \<noteq> None \<and> [] \<notin> set gs \<and> conn_nc c \<and> conn_js c"
| "phase_ok E (Failing e) c \<longleftrightarrow> \<not> conn_started c"

text \<open>The connection with the handle that \<open>Start\<close> has received but not yet recorded, if there is one.\<close>

fun recorded :: "('x, 'app) phase \<Rightarrow> ('x, 'app) connection \<Rightarrow> ('x, 'app) connection" where
  "recorded (Recording h gs) c = record_handle h c"
| "recorded _ c = c"

lemma recorded_not_running: "\<not> running ph \<Longrightarrow> recorded ph c = c"
  by (cases ph) simp_all

lemma recorded_simps [simp]:
  "conn_started (recorded ph c) = conn_started c" "conn_nc (recorded ph c) = conn_nc c"
  "conn_js (recorded ph c) = conn_js c" "conn_subscriptions (recorded ph c) = conn_subscriptions c"
  "conn_pendingJSConsumers (recorded ph c) = conn_pendingJSConsumers c"
  by (cases ph; simp add: record_handle_def)+

lemma running_not_started: "phase_ok E ph c \<Longrightarrow> running ph \<Longrightarrow> \<not> conn_started c"
  by (cases ph) simp_all

text \<open>What a step may do to the world: it keeps what belongs to the application, its metric updates
  are well labelled (it makes none), and it settles and publishes nothing.\<close>

definition start_frame :: "('x, 'app) nworld \<Rightarrow> ('x, 'app) nworld \<Rightarrow> bool" where
  "start_frame w w' \<longleftrightarrow> same_app w w' \<and>
     (\<exists>u. trace w' = trace w @ u \<and> list_all labels_match u) \<and>
     (\<exists>es. effects w' = effects w @ es \<and> list_all (\<lambda>e. \<exists>s cfg. e = Created s cfg) es)"

lemma start_frame_quiet:
  assumes "same_app w w'" and "trace w' = trace w @ u" and "list_all labels_match u"
    and "list_all (\<lambda>x. effect_of x = None) u"
  shows "start_frame w w'"
  using assms effects_quiet [OF assms(2,4)] unfolding start_frame_def by fastforce

lemma live_okI:
  "session_ok (c, w) \<Longrightarrow> \<not> conn_started c \<Longrightarrow> conn_spanNameFn c \<noteq> None \<Longrightarrow> live_ok c w"
  by (simp add: session_ok_def live_ok_def spans_named_iff)

lemma live_okD:
  "live_ok c w \<Longrightarrow> session_ok (c, w)" "live_ok c w \<Longrightarrow> conn_spanNameFn c \<noteq> None"
  "live_ok c w \<Longrightarrow> \<not> conn_started c"
  by (simp_all add: session_ok_def live_ok_def spans_named_iff)

text \<open>A call that is only recorded, and changes of the connection that no invariant mentions.\<close>

lemma recorded_step:
  assumes "session_ok (c, w)" and "trace w' = trace w @ u" and "list_all labels_match u"
    and "list_all (\<lambda>x. effect_of x = None) u \<or> start_frame w w'" and "same_app w w'"
    and "js_callbacks w' = js_callbacks w" and "core_callbacks w' = core_callbacks w"
    and "conn_consumers c' = conn_consumers c" and "conn_subscriptions c' = conn_subscriptions c"
    and "conn_collectMode c' = conn_collectMode c" and "conn_serviceName c' = conn_serviceName c"
    and "conn_started c' \<longrightarrow> conn_nc c' \<and> conn_js c' \<and> conn_pendingJSConsumers c' = []"
  shows "session_ok (c', w') \<and> start_frame w w'"
  using assms start_frame_quiet [OF assms(5,2,3)]
  by (auto simp: session_ok_def accounted_def callbacks_named_def channels_ok_def same_app_def)

lemma setup_step_ok:
  fixes f :: "('x, 'app) named_setup"
  assumes "snd f c w = Some (r, c', w')" and "safe_setup E (snd f)" and "session_ok (c, w)"
    and "\<not> conn_started c" and "conn_spanNameFn c \<noteq> None"
  shows "live_ok c' w'" "conn_nc c' = conn_nc c" "conn_js c' = conn_js c" "start_frame w w'"
proof -
  have run: "run_setups E [f] c w = Some (map_option (setup_failed E f) r, c', w')"
    using assms(1) by (cases r) (simp_all add: setup_failed_def)
  have fs: "\<forall>f \<in> set [f]. safe_setup E (snd f)" using assms(2) by simp
  note live = run_setups_live_ok [OF fs run live_okI [OF assms(3-5)]]
  then show "live_ok c' w'" "conn_nc c' = conn_nc c" "conn_js c' = conn_js c" by simp_all
  from safe.calls [OF assms(2,1)] obtain u where
    "trace w' = trace w @ u" "list_all (setup_call (conn_collectMode c)) u" by blast
  with safe.application [OF assms(2,1)] show "start_frame w w'"
    using setup_call_labels
    by (intro start_frame_quiet [where u = u]) (auto simp: list_all_iff dest: setup_call_quiet)
qed

lemma ensure_group_result:
  assumes "ensure_group E g c w = Some (r, w')" and "session_ok (c, w)"
  shows "session_ok (c, w') \<and> start_frame w w'"
proof -
  obtain first rest where g: "g = first # rest" using assms(1) by (cases g) (simp_all add: ensure_group_def)
  let ?u = "retention_warning (retention c (cc_stream first))
    @ [CreateOrUpdateStream (wanted_stream c (cc_stream first))] :: 'a call list"
  have w': "w' = w\<lparr>trace := trace w @ ?u\<rparr>"
    using assms(1) by (auto simp: g ensure_group_def ensureStream_eq Let_def bind_eq_Some_conv split: if_splits)
  have u: "list_all labels_match ?u" "list_all (\<lambda>x. effect_of x = None) ?u"
    by (simp_all add: retention_warning_def)
  show "session_ok (c, w') \<and> start_frame w w'"
    by (rule recorded_step [OF assms(2), where u = ?u])
      (use u assms(2) in \<open>simp_all add: w' same_app_def session_ok_def\<close>)
qed

lemma create_group_result:
  assumes "create_group E g c w = (r, w')" and "g \<noteq> []" and "session_ok (c, w)"
  shows "session_ok (c, w') \<and> start_frame w w'"
proof -
  let ?x = "CreateOrUpdateConsumer (cc_stream (hd g))
    (group_js_config E (conn_consumerDefaults c) (hd g) g) :: 'a call"
  have w': "w' = emit ?x w"
    using assms(1) by (auto simp: create_group_def Let_def perform_def)
  have "start_frame w w'"
    by (auto simp: start_frame_def w' same_app_def)
  then show ?thesis
    by (intro recorded_step [OF assms(3), where u = "[?x]"])
      (use assms(3) in \<open>simp_all add: w' same_app_def session_ok_def\<close>)
qed

lemma consume_group_result:
  assumes "consume_group E g c w = (r, w')" and "live_ok c w"
  shows "case r of Inl e \<Rightarrow> live_ok c w' | Inr h \<Rightarrow> live_ok (record_handle h c) w'" "start_frame w w'"
proof -
  let ?x = "Consume (cc_stream (hd g)) (group_js_config E (conn_consumerDefaults c) (hd g) g) :: 'a call"
  show "start_frame w w'"
    by (rule start_frame_quiet [where u = "[?x]"])
      (use assms(1) in \<open>auto simp: consume_group_def Let_def perform_def same_app_def
        split: option.splits\<close>)
  show "case r of Inl e \<Rightarrow> live_ok c w' | Inr h \<Rightarrow> live_ok (record_handle h c) w'"
  proof (cases r)
    case (Inl e)
    with assms have "w' = emit ?x w"
      by (auto simp: consume_group_def Let_def perform_def split: option.splits)
    with live_ok_emit [OF _ assms(2)] Inl show ?thesis by simp
  next
    case (Inr h)
    with assms(1) have h: "h = \<lparr>jh_ctx = Some (length (js_callbacks w))\<rparr>"
      and w': "w' = emit ?x w\<lparr>js_callbacks := js_callbacks w @ [group_callback E c g]\<rparr>"
      by (auto simp: consume_group_def Let_def perform_def group_callback_def split: option.splits)
    have "accounted (record_handle h c) w'"
      by (rule accounted_append [of c w _ 1])
        (use assms(2) in \<open>simp_all add: live_ok_def record_handle_def h w'\<close>)
    moreover have "spans_named (record_handle h c) w'"
      using assms(2)
      by (auto simp: live_ok_def spans_named_def record_handle_def w' group_callback_def
          group_consumer_def)
    ultimately show ?thesis
      using assms(2) Inr by (simp add: live_ok_def record_handle_def w' channels_ok_def)
  qed
qed

lemma begin_start_ok:
  assumes "begin_start fs c = (ph, c')" and "\<forall>f \<in> set fs. safe_setup E (snd f)"
    and "session_ok (c, w)"
  shows "session_ok (recorded ph c', w) \<and> phase_ok E ph c'"
  using assms by (auto simp: begin_start_def Let_def session_ok_def accounted_def split: if_splits)

lemma connect_step_ok:
  assumes "start_step E (Connecting fs) c w = Some (ph', c', w')" and "phase_ok E (Connecting fs) c"
    and "session_ok (c, w)"
  shows "session_ok (recorded ph' c', w') \<and> phase_ok E ph' c' \<and> start_frame w w'"
proof -
  from assms(1,2) have w': "w' = emit (connect_call c) w" and c': "c' = c \<or> c' = c\<lparr>conn_nc := True\<rparr>"
    and "phase_ok E ph' c'" "\<not> conn_started c" "recorded ph' c' = c'"
    by (auto simp: perform_def split: option.splits)
  moreover have "session_ok (c', w') \<and> start_frame w w'"
    by (rule recorded_step [OF assms(3), where u = "[connect_call c]"])
      (use c' \<open>\<not> conn_started c\<close> in \<open>auto simp: w' same_app_def\<close>)
  ultimately show ?thesis by simp
qed

lemma jetstream_step_ok:
  assumes "start_step E (NewJetStream fs) c w = Some (ph', c', w')"
    and "phase_ok E (NewJetStream fs) c" and "session_ok (c, w)"
  shows "session_ok (recorded ph' c', w') \<and> phase_ok E ph' c' \<and> start_frame w w'"
proof -
  from assms(1,2) obtain u where u: "trace w' = trace w @ u" "list_all labels_match u"
      "list_all (\<lambda>x. effect_of x = None) u"
    and w': "same_app w w'" "js_callbacks w' = js_callbacks w" "core_callbacks w' = core_callbacks w"
    and c': "c' = c \<or> c' = c\<lparr>conn_js := True\<rparr>" "phase_ok E ph' c'" "\<not> conn_started c"
      "recorded ph' c' = c'"
    by (auto simp: perform_def same_app_def log_at_def split: option.splits)
  have "session_ok (c', w') \<and> start_frame w w'"
    by (rule recorded_step [OF assms(3) u(1,2) _ w']) (use u(3) c' in auto)
  with c' show ?thesis by simp
qed

lemma record_step_ok:
  assumes "start_step E (Recording h gs) c w = Some (ph', c', w')"
    and "phase_ok E (Recording h gs) c" and "session_ok (record_handle h c, w)"
  shows "session_ok (recorded ph' c', w') \<and> phase_ok E ph' c' \<and> start_frame w w'"
proof -
  from assms(1) have c': "ph' = Ensuring gs" "c' = record_handle h c"
    and w': "w' = log_at LevelInfo ''started JetStream consumer'' w" by simp_all
  have "\<not> conn_started c" "phase_ok E ph' c'" using assms(2) c' by (simp_all add: record_handle_def)
  moreover have "session_ok (c', w') \<and> start_frame w w'"
    by (rule recorded_step [OF assms(3), where u = "[Log LevelInfo ''started JetStream consumer'']"])
      (use \<open>\<not> conn_started c\<close> in \<open>auto simp: w' c' same_app_def log_at_def record_handle_def\<close>)
  ultimately show ?thesis by (simp add: c')
qed

lemma start_step_ok:
  assumes "start_step E ph c w = Some (ph', c', w')" and "phase_ok E ph c"
    and "session_ok (recorded ph c, w)"
  shows "session_ok (recorded ph' c', w') \<and> phase_ok E ph' c' \<and> start_frame w w'"
proof (cases "(E, ph, c, w)" rule: start_step.cases)
  case (5 E' fs c0 w0)
  with assms connect_step_ok show ?thesis by simp
next
  case (6 E' fs c0 w0)
  with assms jetstream_step_ok show ?thesis by simp
next
  case (7 E' c0 w0)
  with assms groups_of_not_Nil show ?thesis
    by (fastforce simp: pending_groups_eq start_frame_def)
next
  case (8 E' f fs c0 w0)
  with assms obtain r where f: "snd f c w = Some (r, c', w')"
    and ph': "ph' = (case r of Some err \<Rightarrow> Failing (setup_failed E f err) | None \<Rightarrow> Setting fs)"
    by (auto simp: bind_eq_Some_conv)
  with assms 8 setup_step_ok [OF f, of E] live_okD [of c' w'] show ?thesis
    by (auto split: option.split)
next
  case (9 E' c0 w0)
  have "session_ok (c', w') \<and> start_frame w w'"
    by (rule recorded_step [of c w, where u = "[Log LevelInfo ''connection started'']"])
      (use assms 9 in \<open>auto simp: same_app_def log_at_def\<close>)
  with assms 9 show ?thesis by auto
next
  case (10 E' g gs c0 w0)
  with assms ensure_group_result [of E g c w] show ?thesis
    by (auto simp: bind_eq_Some_conv split: option.split)
next
  case (11 E' g gs c0 w0)
  with assms create_group_result [of E g c w] show ?thesis
    by (auto split: option.splits prod.splits)
next
  case (12 E' g gs c0 w0)
  with assms obtain r where r: "consume_group E g c w = (r, w')" and c': "c' = c"
    and ph': "ph' = (case r of Inl err \<Rightarrow> Failing err | Inr h \<Rightarrow> Recording h gs)"
    by (cases "consume_group E g c w") auto
  have "live_ok c w" using assms 12 by (simp add: live_okI)
  from consume_group_result [OF r this] assms 12 c' ph' show ?thesis
    by (auto dest: live_okD split: sum.splits)
next
  case (13 E' h gs c0 w0)
  then have ph: "ph = Recording h gs" by simp
  from assms record_step_ok [of E h gs c w ph' c' w'] show ?thesis unfolding ph recorded.simps by blast
next
  case (14 E' e c0 w0)
  have "session_ok (c', w') \<and> start_frame w w'"
    by (rule recorded_step [of c w, where u = "[NcClose]"])
      (use assms 14 in \<open>auto simp: same_app_def\<close>)
  with assms 14 show ?thesis by auto
qed (use assms in simp_all)

section \<open>Start is never stuck\<close>

fun calm_phase :: "'x ext \<Rightarrow> ('x, 'app) phase \<Rightarrow> bool" where
  "calm_phase E (Connecting fs) \<longleftrightarrow> (\<forall>f \<in> set fs. calm_setup E (snd f))"
| "calm_phase E (NewJetStream fs) \<longleftrightarrow> (\<forall>f \<in> set fs. calm_setup E (snd f))"
| "calm_phase E (Setting fs) \<longleftrightarrow> (\<forall>f \<in> set fs. calm_setup E (snd f))"
| "calm_phase E _ \<longleftrightarrow> True"

lemma calm_phase_step:
  "start_step E ph c w = Some (ph', c', w') \<Longrightarrow> phase_ok E ph c \<Longrightarrow> calm_phase E ph \<Longrightarrow> calm_phase E ph'"
  by (cases "(E, ph, c, w)" rule: start_step.cases)
    (auto simp: bind_eq_Some_conv perform_def split: option.splits prod.splits sum.splits)

lemma start_step_enabled:
  assumes "phase_ok E ph c" and "calm_phase E ph" and "running ph"
  shows "\<exists>ph' c' w'. start_step E ph c w = Some (ph', c', w')"
proof (cases "(E, ph, c, w)" rule: start_step.cases)
  case (8 E' f fs c0 w0)
  with assms live.defined [of E "snd f" c w] show ?thesis by auto
next
  case (10 E' g gs c0 w0)
  with assms show ?thesis
    by (cases g) (auto simp: ensure_group_def ensureStream_eq Let_def)
qed (use assms in \<open>auto simp: perform_def split: option.splits prod.splits\<close>)

text \<open>How many steps are left, when every setup function declares at most one consumer.\<close>

fun steps_left :: "('x, 'app) phase \<Rightarrow> ('x, 'app) connection \<Rightarrow> nat" where
  "steps_left (Connecting fs) c = 5 * length fs + 4 * length (conn_pendingJSConsumers c) + 5"
| "steps_left (NewJetStream fs) c = 5 * length fs + 4 * length (conn_pendingJSConsumers c) + 4"
| "steps_left (Setting fs) c = 5 * length fs + 4 * length (conn_pendingJSConsumers c) + 3"
| "steps_left (Ensuring gs) c = 4 * length gs + 2"
| "steps_left (Creating g gs) c = 4 * length gs + 5"
| "steps_left (Consuming g gs) c = 4 * length gs + 4"
| "steps_left (Recording h gs) c = 4 * length gs + 3"
| "steps_left (Failing e) c = 1"
| "steps_left _ c = 0"

lemma pkg_setup_pending:
  assumes "pkg_setup E f" and "f c w = Some (r, c', w')"
  shows "length (conn_pendingJSConsumers c') \<le> Suc (length (conn_pendingJSConsumers c))"
  using assms(1)
proof cases
  case config
  with config_setup_frame [OF config assms(2)] show ?thesis by simp
next
  case (stream opts e t h st k)
  with assms(2) show ?thesis by (auto simp: stream_consumer_def split: sum.splits)
next
  case (core cb what t k)
  from core_setup_result(1) [OF assms(2) [unfolded core]] show ?thesis by (auto split: if_splits)
next
  case (response t target k)
  with assms(2) show ?thesis by (auto simp: response_setup_def)
next
  case (stream_publisher st pid)
  from StreamPublisher_result(4,5) [OF assms(2) [unfolded stream_publisher]] show ?thesis
    by (cases r) auto
next
  case (service_publisher target pid)
  from ServicePublisher_result(5) [OF assms(2) [unfolded service_publisher]] show ?thesis by auto
qed

lemma length_pending_groups: "length (pending_groups c) \<le> length (conn_pendingJSConsumers c)"
proof -
  have "length (nub xs) \<le> length xs" for xs :: "'z list"
    by (induction xs rule: nub.induct) (auto intro: le_trans [OF length_filter_le])
  from this [of "map consumerGroupKey (conn_pendingJSConsumers c)"] show ?thesis
    by (simp add: pending_groups_eq groups_of_def)
qed

lemma start_step_fewer:
  assumes "start_step E ph c w = Some (ph', c', w')" and "phase_ok E ph c"
  shows "steps_left ph' c' < steps_left ph c"
proof (cases "(E, ph, c, w)" rule: start_step.cases)
  case (7 E' c0 w0)
  with assms length_pending_groups [of c] show ?thesis by auto
next
  case (8 E' f fs c0 w0)
  with assms obtain r where f: "snd f c w = Some (r, c', w')"
    and ph': "ph' = (case r of Some err \<Rightarrow> Failing (setup_failed E f err) | None \<Rightarrow> Setting fs)"
    by (auto simp: bind_eq_Some_conv)
  have "pkg_setup E (snd f)" using assms(2) 8 by (simp add: safe_setup_def)
  from pkg_setup_pending [OF this f] show ?thesis using 8 ph' by (auto split: option.split)
qed (use assms in \<open>auto simp: bind_eq_Some_conv perform_def split: option.splits prod.splits sum.splits\<close>)

end
