(* ===== verification/Tasks.thy ===== *)
theory Tasks
  imports Go_Prelude "HOL-Library.Multiset" "HOL-Library.Monad_Syntax"
begin

text \<open>
  Goroutines as tasks: a task is finished, or performs one atomic action on the shared world and
  continues. What holds of a task is stated by predicates over all its paths, whatever other tasks do
  to the world between two of its actions: the relation its actions stay in (\<open>guarantees\<close>), what it
  adds to a view of the world in its lifetime (\<open>pays\<close>), that it does not panic (\<open>unfailing\<close>), and how
  many actions it has left (\<open>within\<close>). The second half is about pools of tasks that are interleaved.
\<close>

section \<open>Tasks\<close>

text \<open>An action yields the rest of the task and the new world, or panics.\<close>

datatype (dead 'w) task = Done | Act "'w \<Rightarrow> ('w task \<times> 'w) option"

lemma task_induct [case_names Done Act, induct type: task]:
  assumes "P Done" and "\<And>f. (\<And>w t w'. f w = Some (t, w') \<Longrightarrow> P t) \<Longrightarrow> P (Act f)"
  shows "P t"
proof (induction t rule: task.induct)
  case Done
  then show ?case using assms(1) .
next
  case (Act f)
  show ?case
  proof (rule assms(2))
    fix w t w'
    assume "f w = Some (t, w')"
    then have "Some (t, w') \<in> range f" by (metis rangeI)
    from Act [OF this, of "(t, w')" t] show "P t" by simp
  qed
qed

text \<open>A task that runs alone.\<close>

primrec run :: "'w task \<Rightarrow> 'w \<Rightarrow> 'w option" where
  "run Done = Some"
| "run (Act f) = (\<lambda>w. do { (g, w') \<leftarrow> (map_option (map_prod run id) \<circ> f) w; g w' })"

text \<open>The actions: change the world, read from it, change it or panic, call and use the result, panic.\<close>

definition exec :: "('w \<Rightarrow> 'w) \<Rightarrow> 'w task \<Rightarrow> 'w task" where
  "exec g t = Act (\<lambda>w. Some (t, g w))"

definition read :: "('w \<Rightarrow> 'a) \<Rightarrow> ('a \<Rightarrow> 'w task) \<Rightarrow> 'w task" where
  "read g k = Act (\<lambda>w. Some (k (g w), w))"

definition attempt :: "('w \<Rightarrow> 'w option) \<Rightarrow> 'w task \<Rightarrow> 'w task" where
  "attempt g t = Act (\<lambda>w. do { w' \<leftarrow> g w; Some (t, w') })"

definition call :: "('w \<Rightarrow> ('a \<times> 'w) option) \<Rightarrow> ('a \<Rightarrow> 'w task) \<Rightarrow> 'w task" where
  "call g k = Act (\<lambda>w. do { (a, w') \<leftarrow> g w; Some (k a, w') })"

definition panic :: "'w task" where
  "panic = Act (\<lambda>_. None)"

lemma run_Act: "run (Act f) w = do { (t, w') \<leftarrow> f w; run t w' }"
  by (cases "f w") auto

lemma run_actions [simp]:
  "run (exec g t) w = run t (g w)"
  "run (read h k) w = run (k (h w)) w"
  "run (attempt g' t) w = do { w' \<leftarrow> g' w; run t w' }"
  "run (call g'' k') w = do { (a, w') \<leftarrow> g'' w; run (k' a) w' }"
  "run panic w = None"
  by (simp_all add: exec_def read_def attempt_def call_def panic_def run_Act case_prod_unfold del: run.simps(2))

declare run.simps(2) [simp del]

section \<open>What a task does on every path\<close>

inductive guarantees :: "('w \<Rightarrow> 'w \<Rightarrow> bool) \<Rightarrow> 'w task \<Rightarrow> bool" for R where
  finished: "guarantees R Done"
| act: "(\<And>w t w'. f w = Some (t, w') \<Longrightarrow> R w w' \<and> guarantees R t) \<Longrightarrow> guarantees R (Act f)"

inductive pays :: "('w \<Rightarrow> 'a list) \<Rightarrow> 'a list \<Rightarrow> 'w task \<Rightarrow> bool" for v where
  finished: "pays v [] Done"
| act: "(\<And>w t w'. f w = Some (t, w') \<Longrightarrow>
      \<exists>ys zs. xs = ys @ zs \<and> v w' = v w @ ys \<and> pays v zs t) \<Longrightarrow> pays v xs (Act f)"

inductive unfailing :: "('w \<Rightarrow> bool) \<Rightarrow> 'w task \<Rightarrow> bool" for P where
  finished: "unfailing P Done"
| act: "(\<And>w. P w \<Longrightarrow> f w \<noteq> None) \<Longrightarrow> (\<And>w t w'. f w = Some (t, w') \<Longrightarrow> unfailing P t) \<Longrightarrow>
     unfailing P (Act f)"

inductive within :: "nat \<Rightarrow> 'w task \<Rightarrow> bool" where
  finished: "within n Done"
| act: "(\<And>w t w'. f w = Some (t, w') \<Longrightarrow> within n t) \<Longrightarrow> within (Suc n) (Act f)"

inductive_cases guarantees_ActE: "guarantees R (Act f)"
inductive_cases pays_DoneE: "pays v xs Done"
inductive_cases pays_ActE: "pays v xs (Act f)"
inductive_cases unfailing_ActE: "unfailing P (Act f)"
inductive_cases within_ActE: "within n (Act f)"

named_theorems task_rules

lemma guarantees_actions [task_rules]:
  "(\<And>w. R w (g w)) \<Longrightarrow> guarantees R t \<Longrightarrow> guarantees R (exec g t)"
  "(\<And>w. R w w) \<Longrightarrow> (\<And>a. guarantees R (k a)) \<Longrightarrow> guarantees R (read h k)"
  "(\<And>w w'. g' w = Some w' \<Longrightarrow> R w w') \<Longrightarrow> guarantees R t \<Longrightarrow> guarantees R (attempt g' t)"
  "(\<And>w a w'. g'' w = Some (a, w') \<Longrightarrow> R w w') \<Longrightarrow> (\<And>a. guarantees R (k a)) \<Longrightarrow>
     guarantees R (call g'' k)"
  by (auto simp: exec_def read_def attempt_def call_def bind_eq_Some_conv intro!: guarantees.act)

lemma guarantees_ends [task_rules]: "guarantees R Done" "guarantees R panic"
  by (auto simp: panic_def intro: guarantees.intros)

text \<open>An action pays nothing, or the one thing that is owed.\<close>

lemma pays_silent:
  "(\<And>w. v (g w) = v w) \<Longrightarrow> pays v xs t \<Longrightarrow> pays v xs (exec g t)"
  "(\<And>a. pays v xs (k a)) \<Longrightarrow> pays v xs (read h k)"
  "(\<And>w w'. g' w = Some w' \<Longrightarrow> v w' = v w) \<Longrightarrow> pays v xs t \<Longrightarrow> pays v xs (attempt g' t)"
  "(\<And>w a w'. g'' w = Some (a, w') \<Longrightarrow> v w' = v w) \<Longrightarrow> (\<And>a. pays v xs (k a)) \<Longrightarrow>
     pays v xs (call g'' k)"
  by (auto simp: exec_def read_def attempt_def call_def bind_eq_Some_conv intro!: pays.act
      intro: exI [of _ "[]"])

lemma pays_exec:
  "(\<And>w. v (g w) = v w @ ys) \<Longrightarrow> pays v zs t \<Longrightarrow> pays v (ys @ zs) (exec g t)"
  by (auto simp: exec_def intro!: pays.act)

lemma pays_Done [simp]: "pays v xs Done \<longleftrightarrow> xs = []"
  by (auto intro: pays.finished elim: pays_DoneE)

lemma pays_panic [simp]: "pays v xs panic"
  by (auto simp: panic_def intro: pays.act)

lemma unfailing_actions [task_rules]:
  "unfailing P t \<Longrightarrow> unfailing P (exec g t)"
  "(\<And>a. unfailing P (k a)) \<Longrightarrow> unfailing P (read h k)"
  "(\<And>w. P w \<Longrightarrow> g' w \<noteq> None) \<Longrightarrow> unfailing P t \<Longrightarrow> unfailing P (attempt g' t)"
  "(\<And>w. P w \<Longrightarrow> g'' w \<noteq> None) \<Longrightarrow> (\<And>a. unfailing P (k a)) \<Longrightarrow> unfailing P (call g'' k)"
  by (fastforce simp: exec_def read_def attempt_def call_def bind_eq_Some_conv intro!: unfailing.act)+

lemma unfailing_Done [task_rules]: "unfailing P Done"
  by (rule unfailing.finished)

lemma within_actions:
  "within n t \<Longrightarrow> within (Suc n) (exec g t)"
  "(\<And>a. within n (k a)) \<Longrightarrow> within (Suc n) (read h k)"
  "within n t \<Longrightarrow> within (Suc n) (attempt g' t)"
  "(\<And>a. within n (k a)) \<Longrightarrow> within (Suc n) (call g'' k)"
  by (auto simp: exec_def read_def attempt_def call_def bind_eq_Some_conv intro!: within.act)

lemma within_ends: "within n Done" "within (Suc n) panic"
  by (auto simp: panic_def intro: within.intros)

lemma within_mono: "within m t \<Longrightarrow> m \<le> n \<Longrightarrow> within n t"
proof (induction arbitrary: n rule: within.induct)
  case (finished n)
  then show ?case by (simp add: within.finished)
next
  case (act f m)
  then obtain n' where "n = Suc n'" "m \<le> n'" by (cases n) auto
  with act.IH show ?case by (auto intro: within.act)
qed

lemma within_0 [simp]: "within 0 t \<longleftrightarrow> t = Done"
  by (auto elim: within.cases intro: within.finished)

text \<open>What the predicates say of the task alone: it returns, and adds to the view what it owes.\<close>

lemma pays_run: "pays v xs t \<Longrightarrow> run t w = Some w' \<Longrightarrow> v w' = v w @ xs"
proof (induction t arbitrary: xs w)
  case Done
  then show ?case by simp
next
  case (Act f)
  from Act.prems(2) obtain t w1 where f: "f w = Some (t, w1)" "run t w1 = Some w'"
    by (auto simp: run_Act bind_eq_Some_conv)
  from Act.prems(1) f(1) obtain ys zs where "xs = ys @ zs" "v w1 = v w @ ys" "pays v zs t"
    by (blast elim: pays_ActE)
  with Act.IH [OF f(1) _ f(2)] show ?case by simp
qed

section \<open>Interleaving\<close>

text \<open>A pool of tasks, each with a label; any task may perform its next action.\<close>

type_synonym ('l, 'w) pool = "('l \<times> 'w task) list"

inductive advance :: "('l, 'w) pool \<times> 'w \<Rightarrow> ('l, 'w) pool \<times> 'w \<Rightarrow> bool" where
  advance: "i < length ts \<Longrightarrow> ts ! i = (l, Act f) \<Longrightarrow> f w = Some (t, w') \<Longrightarrow>
     advance (ts, w) (ts[i := (l, t)], w')"

inductive advances :: "nat \<Rightarrow> ('l, 'w) pool \<times> 'w \<Rightarrow> ('l, 'w) pool \<times> 'w \<Rightarrow> bool" where
  none: "advances 0 s s"
| more: "advance s s' \<Longrightarrow> advances n s' s'' \<Longrightarrow> advances (Suc n) s s''"

inductive_cases advanceE: "advance (ts, w) s"

definition all_done :: "('l, 'w) pool \<Rightarrow> bool" where
  "all_done ts \<longleftrightarrow> list_all (\<lambda>(l, t). t = Done) ts"

text \<open>Predicates on labelled tasks that are kept by the task's own actions are kept by a pool.\<close>

lemma advance_list_all:
  assumes "advance (ts, w) (ts', w')" and "list_all P ts"
    and "\<And>l f w t w'. P (l, Act f) \<Longrightarrow> f w = Some (t, w') \<Longrightarrow> P (l, t)"
  shows "list_all P ts'"
  using assms(1)
proof cases
  case (advance i l f t)
  from advance assms(2) have "P (l, Act f)" by (metis list_all_length)
  with advance assms(3) have "P (l, t)" by blast
  with assms(2) advance show ?thesis by (simp add: list_all_length nth_list_update)
qed

lemma advance_labels:
  "advance (ts, w) (ts', w') \<Longrightarrow> map fst ts' = map fst ts"
  by (erule advanceE) (auto simp: map_update list_update_same_conv)

lemma advance_guarantee:
  assumes "advance (ts, w) (ts', w')" and "list_all (\<lambda>(l, t). guarantees R t) ts"
  shows "R w w'" "list_all (\<lambda>(l, t). guarantees R t) ts'"
proof -
  from assms(1) show "R w w'"
  proof cases
    case (advance i l f t)
    with assms(2) have "guarantees R (Act f)" by (auto simp: list_all_length)
    with advance show ?thesis by (blast elim: guarantees_ActE)
  qed
  show "list_all (\<lambda>(l, t). guarantees R t) ts'"
    by (rule advance_list_all [OF assms]) (auto elim: guarantees_ActE)
qed

text \<open>
  The balance of a pool: what is in the view and what the tasks still owe is, together, what the
  labels of the pool promise. So the view has what the finished tasks promised, and no more than all
  of them did.
\<close>

definition owing :: "('w \<Rightarrow> 'a list) \<Rightarrow> ('l \<Rightarrow> 'a list) \<Rightarrow> 'a list list \<Rightarrow> ('l, 'w) pool \<Rightarrow> bool" where
  "owing v promise debts ts \<longleftrightarrow>
     list_all2 (\<lambda>xs (l, t). pays v xs t \<and> mset xs \<subseteq># mset (promise l)) debts ts"

definition balanced :: "('w \<Rightarrow> 'a list) \<Rightarrow> ('l \<Rightarrow> 'a list) \<Rightarrow> ('l, 'w) pool \<Rightarrow> 'w \<Rightarrow> bool" where
  "balanced v promise ts w \<longleftrightarrow>
     (\<exists>debts. owing v promise debts ts \<and>
        mset (v w) + mset (concat debts) = mset (concat (map (promise \<circ> fst) ts)))"

lemma mset_concat_update:
  "i < length xss \<Longrightarrow> xss ! i = ys @ zs \<Longrightarrow>
   mset (concat xss) = mset ys + mset (concat (xss[i := zs]))"
proof (induction xss arbitrary: i)
  case (Cons xs xss)
  then show ?case by (cases i) auto
qed simp

lemma balanced_advance:
  assumes "advance (ts, w) (ts', w')" and "balanced v promise ts w"
  shows "balanced v promise ts' w'"
  using assms(1)
proof cases
  case (advance i l f t)
  from assms(2) obtain debts where o: "owing v promise debts ts"
    and m: "mset (v w) + mset (concat debts) = mset (concat (map (promise \<circ> fst) ts))"
    by (auto simp: balanced_def)
  note len = list_all2_lengthD [OF o [unfolded owing_def]]
  from advance len o have d: "pays v (debts ! i) (Act f)" "mset (debts ! i) \<subseteq># mset (promise l)"
    by (auto simp: owing_def list_all2_conv_all_nth)
  with advance obtain ys zs where z: "debts ! i = ys @ zs" "v w' = v w @ ys" "pays v zs t"
    by (blast elim: pays_ActE)
  have "mset zs \<subseteq># mset (promise l)"
    using d(2) z(1) by (metis mset_append mset_subset_eq_add_right subset_mset.order_trans)
  with o z(3) advance have "owing v promise (debts[i := zs]) ts'"
    by (auto simp: owing_def intro!: list_all2_update_cong)
  moreover have "mset (v w') + mset (concat (debts[i := zs])) = mset (v w) + mset (concat debts)"
    using mset_concat_update [of i debts ys zs] z advance len by simp
  moreover have "map (promise \<circ> fst) ts' = map (promise \<circ> fst) ts"
    using advance_labels [OF assms(1)] by (metis map_map)
  ultimately show ?thesis
    using m by (auto simp: balanced_def)
qed

lemma balanced_spawn:
  assumes "balanced v promise ts w" and "pays v (promise l) t"
  shows "balanced v promise (ts @ [(l, t)]) w"
proof -
  from assms(1) obtain debts where o: "owing v promise debts ts"
    and m: "mset (v w) + mset (concat debts) = mset (concat (map (promise \<circ> fst) ts))"
    by (auto simp: balanced_def)
  from o assms(2) have "owing v promise (debts @ [promise l]) (ts @ [(l, t)])"
    by (auto simp: owing_def intro!: list_all2_appendI)
  with m show ?thesis
    by (auto simp: balanced_def add.assoc [symmetric] intro!: exI [of _ "debts @ [promise l]"])
qed

lemma balanced_view: "v w' = v w \<Longrightarrow> balanced v promise ts w \<Longrightarrow> balanced v promise ts w'"
  by (simp add: balanced_def)

lemma owing_unfinished:
  "owing v promise debts ts \<Longrightarrow>
   mset (concat debts) + mset (concat (map (promise \<circ> fst) (filter (\<lambda>(l, t). t = Done) ts)))
     \<subseteq># mset (concat (map (promise \<circ> fst) ts))"
  unfolding owing_def
proof (induction rule: list_all2_induct)
  case (Cons xs debts x ts)
  obtain l t where x: "x = (l, t)" by (cases x)
  show ?case
  proof (cases "t = Done")
    case True
    with Cons x show ?thesis by (simp add: add.left_commute)
  next
    case False
    with Cons x have "mset xs \<subseteq># mset (promise l)" by simp
    from subset_mset.add_mono [OF this Cons.IH] False x show ?thesis by (simp add: add.assoc)
  qed
qed simp

lemma balanced_bounds:
  assumes "balanced v promise ts w"
  shows "mset (concat (map (promise \<circ> fst) (filter (\<lambda>(l, t). t = Done) ts))) \<subseteq># mset (v w)"
    "mset (v w) \<subseteq># mset (concat (map (promise \<circ> fst) ts))"
proof -
  from assms obtain debts where o: "owing v promise debts ts"
    and m: "mset (v w) + mset (concat debts) = mset (concat (map (promise \<circ> fst) ts))"
    by (auto simp: balanced_def)
  from owing_unfinished [OF o] show
    "mset (concat (map (promise \<circ> fst) (filter (\<lambda>(l, t). t = Done) ts))) \<subseteq># mset (v w)"
    unfolding m [symmetric] by (simp add: add.commute)
  show "mset (v w) \<subseteq># mset (concat (map (promise \<circ> fst) ts))"
    unfolding m [symmetric] by simp
qed

section \<open>Progress\<close>

definition budget :: "nat list \<Rightarrow> ('l, 'w) pool \<Rightarrow> bool" where
  "budget ns ts \<longleftrightarrow> list_all2 (\<lambda>n (l, t). within n t) ns ts"

lemma sum_list_dec:
  "i < length ns \<Longrightarrow> ns ! i = Suc n \<Longrightarrow> sum_list ns = Suc (sum_list (ns[i := n]))"
proof (induction ns arbitrary: i)
  case (Cons m ns)
  then show ?case by (cases i) auto
qed simp

lemma budget_advance:
  assumes "advance (ts, w) (ts', w')" and "budget ns ts"
  obtains ns' where "budget ns' ts'" "sum_list ns = Suc (sum_list ns')"
  using assms(1)
proof cases
  case (advance i l f t)
  note len = list_all2_lengthD [OF assms(2) [unfolded budget_def]]
  from advance len assms(2) have "within (ns ! i) (Act f)"
    by (auto simp: budget_def list_all2_conv_all_nth)
  then obtain n where n: "ns ! i = Suc n" "within n t"
    using advance by (blast elim: within_ActE)
  show thesis
  proof
    show "budget (ns[i := n]) ts'"
      using assms(2) n(2) advance by (auto simp: budget_def intro!: list_all2_update_cong)
    show "sum_list ns = Suc (sum_list (ns[i := n]))"
      using sum_list_dec n(1) advance len by metis
  qed
qed

lemma advances_bounded:
  "advances n s s' \<Longrightarrow> budget ns (fst s) \<Longrightarrow> n \<le> sum_list ns"
proof (induction arbitrary: ns rule: advances.induct)
  case (more s s1 n s2)
  obtain ts w ts1 w1 where "s = (ts, w)" "s1 = (ts1, w1)" by (cases s; cases s1)
  with more.hyps(1) more.prems obtain ns' where
    "budget ns' (fst s1)" "sum_list ns = Suc (sum_list ns')"
    by (metis budget_advance fst_conv)
  with more.IH show ?case by simp
qed simp

lemma advances_labels: "advances n s s' \<Longrightarrow> map fst (fst s') = map fst (fst s)"
proof (induction rule: advances.induct)
  case (more s s1 n s2)
  then show ?case by (cases s; cases s1) (simp add: advance_labels)
qed simp

text \<open>A task that is not finished can act, as long as the condition holds under which it does not
  panic; so a pool whose actions keep the condition runs to the end.\<close>

lemma unfailing_enabled:
  assumes "unfailing P t" and "P w" and "t \<noteq> Done"
  shows "\<exists>f t' w'. t = Act f \<and> f w = Some (t', w')"
  using assms by (cases rule: unfailing.cases) auto

lemma pool_enabled:
  assumes "list_all (\<lambda>(l, t). unfailing P t) ts" and "P w" and "\<not> all_done ts"
  shows "\<exists>ts' w'. advance (ts, w) (ts', w')"
proof -
  from assms(3) obtain i where i: "i < length ts" "snd (ts ! i) \<noteq> Done"
    by (fastforce simp: all_done_def list_all_length)
  obtain l t where t: "ts ! i = (l, t)" by (cases "ts ! i")
  with i assms(1) have "unfailing P t" "t \<noteq> Done" by (auto simp: list_all_length)
  from unfailing_enabled [OF this(1) assms(2) this(2)] t i(1) show ?thesis
    by (blast intro: advance.advance)
qed

lemma unfailing_step: "unfailing P (Act f) \<Longrightarrow> f w = Some (t, w') \<Longrightarrow> unfailing P t"
  by (blast elim: unfailing_ActE)

lemma guarantees_step: "guarantees R (Act f) \<Longrightarrow> f w = Some (t, w') \<Longrightarrow> guarantees R t"
  by (blast elim: guarantees_ActE)

lemma within_step: "within n (Act f) \<Longrightarrow> f w = Some (t, w') \<Longrightarrow> within n t"
  by (erule within_ActE) (blast intro: within_mono le_SucI order_refl)

definition pool_ok :: "('w \<Rightarrow> 'w \<Rightarrow> bool) \<Rightarrow> ('w \<Rightarrow> bool) \<Rightarrow> ('l, 'w) pool \<Rightarrow> bool" where
  "pool_ok R P ts \<longleftrightarrow> list_all (\<lambda>(l, t). guarantees R t \<and> unfailing P t) ts"

text \<open>The contract of the actions of a pool: they stay in a relation under which the condition is stable.\<close>

locale stable_pool =
  fixes R :: "'w \<Rightarrow> 'w \<Rightarrow> bool" and P :: "'w \<Rightarrow> bool"
  assumes stable: "R w w' \<Longrightarrow> P w \<Longrightarrow> P w'"
begin

lemma pool_ok_advance:
  assumes "advance (ts, w) (ts', w')" and "pool_ok R P ts" and "P w"
  shows "pool_ok R P ts'" "P w'"
proof -
  show "pool_ok R P ts'"
    unfolding pool_ok_def
    by (rule advance_list_all [OF assms(1) assms(2) [unfolded pool_ok_def]])
      (auto dest: unfailing_step guarantees_step)
  have "R w w'"
    by (rule advance_guarantee(1) [OF assms(1)])
      (use assms(2) in \<open>auto simp: pool_ok_def list_all_iff\<close>)
  then show "P w'" using assms(3) by (rule stable)
qed

lemma enabled:
  assumes "pool_ok R P ts" and "P w" and "\<not> all_done ts"
  obtains ts' w' where "advance (ts, w) (ts', w')"
proof -
  have "list_all (\<lambda>(l, t). unfailing P t) ts"
    using assms(1) by (auto simp: pool_ok_def list_all_iff)
  from pool_enabled [OF this assms(2,3)] that show thesis by blast
qed

lemma drains:
  "budget ns ts \<Longrightarrow> pool_ok R P ts \<Longrightarrow> P w \<Longrightarrow>
   \<exists>n ts' w'. advances n (ts, w) (ts', w') \<and> all_done ts'"
proof (induction "sum_list ns" arbitrary: ns ts w rule: less_induct)
  case less
  show ?case
  proof (cases "all_done ts")
    case True
    then show ?thesis by (blast intro: advances.none)
  next
    case False
    with less.prems obtain ts1 w1 where step: "advance (ts, w) (ts1, w1)"
      using enabled by blast
    obtain ns1 where ns1: "budget ns1 ts1" "sum_list ns = Suc (sum_list ns1)"
      using budget_advance [OF step less.prems(1)] by blast
    have "\<exists>n ts' w'. advances n (ts1, w1) (ts', w') \<and> all_done ts'"
      using ns1 pool_ok_advance [OF step less.prems(2,3)] by (intro less.hyps) simp_all
    with step show ?thesis by (blast intro: advances.more)
  qed
qed

end

end
