(* ===== verification/Concurrency.thy ===== *)
theory Concurrency
  imports Startup Tasks
begin

text \<open>
  Concurrency inside a session. The NATS client runs the callbacks of different consumers and
  subscriptions in goroutines of their own, and the application publishes from any goroutine. Here
  message processing (\<open>consumer.go\<close>, \<open>request_response.go\<close>), publishing (\<open>publisher.go\<close>), \<open>Close\<close> and
  \<open>InitMetrics\<close> are tasks whose atomic actions are the single statements that touch something shared: the clock, a metric, a
  span, a channel, the broker, the application. Run alone, each task is the operation of the
  sequential model; interleaved arbitrarily, with the phases of \<open>Start\<close> and the application between
  any two statements, they keep the invariant of the session, settle every
  message exactly once and come to an end.
\<close>

section \<open>Message processing, statement by statement\<close>

text \<open>The metric helpers of \<open>metrics.go\<close>; each update reads the routing key mapper.\<close>

definition inc_task ::
  "metric_desc \<Rightarrow> string \<Rightarrow> string \<Rightarrow> ('x, 'w) world_scheme task \<Rightarrow> ('x, 'w) world_scheme task" where
  "inc_task d name routingKey t =
     exec (\<lambda>w. emit (CounterInc d [name, routingKeyLabel w routingKey]) w) t"

definition observe_task ::
  "metric_desc \<Rightarrow> string \<Rightarrow> string \<Rightarrow> string \<Rightarrow> int \<Rightarrow> ('x, 'w) world_scheme task
   \<Rightarrow> ('x, 'w) world_scheme task" where
  "observe_task d name routingKey result ms t =
     exec (\<lambda>w. emit (HistogramObserve d [name, routingKeyLabel w routingKey, result] ms) w) t"

definition eventNak_task where
  "eventNak_task name routingKey ms t =
     inc_task eventNakCounter name routingKey
       (observe_task eventProcessedDuration name routingKey ''NAK'' ms t)"

definition eventAck_task where
  "eventAck_task name routingKey ms t =
     inc_task eventAckCounter name routingKey
       (observe_task eventProcessedDuration name routingKey ''ACK'' ms t)"

definition invoke_handler_task ::
  "'x ext \<Rightarrow> ('x, 'app) jsConsumer \<Rightarrow> 'x delivery_info \<Rightarrow> nats_header \<Rightarrow> string
   \<Rightarrow> ('x \<Rightarrow> 'x unmarshalEvent \<Rightarrow> 'app \<Rightarrow> ('r \<times> 'app) option)
   \<Rightarrow> ('r \<Rightarrow> int \<Rightarrow> ('x, 'app, 'w) cworld_scheme task) \<Rightarrow> ('x, 'app, 'w) cworld_scheme task" where
  "invoke_handler_task E c deliveryInfo msgHeader data handler k =
     read (\<lambda>w. extractToContext E (map_rank E (trace w) ''extractToContext'')
                 (context_Background E) msgHeader (jsc_propagator c)) (\<lambda>headerCtx.
     let headers = di_Headers deliveryInfo;
         spanAttrs = consumerSpanAttributes deliveryInfo (jsc_serviceName c)
                       (message_id E headers) (length data);
         uevt = \<lparr>ue_Metadata = spec_MetadataFromHeaders E headers,
                 ue_DeliveryInfo = deliveryInfo, ue_Payload = data\<rparr>
     in case jsc_spanNameFn c of
          None \<Rightarrow> panic
        | Some spanNameFn \<Rightarrow>
            (let tracingCtx = tracer_Start E (getTracer E c) headerCtx (spanNameFn deliveryInfo)
             in exec (emit (SpanStart (spanNameFn deliveryInfo) SpanKindConsumer spanAttrs))
               (read (\<lambda>w. clock E (trace w)) (\<lambda>startTime.
                exec (emit (InvokeHandler uevt))
               (call (\<lambda>w. do { (result, s) \<leftarrow> handler tracingCtx uevt (app w);
                              Some (result, w\<lparr>app := s\<rparr>) }) (\<lambda>result.
                k result startTime)))))) "

definition settle_failure_task ::
  "('x, 'app) jsConsumer \<Rightarrow> js_msg \<Rightarrow> string \<Rightarrow> int \<Rightarrow> go_error
   \<Rightarrow> ('x, 'app, 'w) cworld_scheme task \<Rightarrow> ('x, 'app, 'w) cworld_scheme task" where
  "settle_failure_task c msg routingKey elapsed err t =
     (if errors_is err ErrParseJSON then
        exec (log_at LevelWarn ''failed to parse message, terminating'')
          (inc_task eventNotParsableCounter (jsc_name c) routingKey
          (exec (emit (MsgTerm (jm_Id msg))) t))
      else if errors_is err ErrNoMessageTypeForRouteKey then
        exec (log_at LevelWarn ''no type mapping for routing key, terminating'')
          (inc_task eventWithoutHandlerCounter (jsc_name c) routingKey
          (exec (emit (MsgTerm (jm_Id msg))) t))
      else
        exec (log_at LevelError ''handler failed, naking for redelivery'')
          (eventNak_task (jsc_name c) routingKey elapsed
          (exec (emit (MsgNak (jm_Id msg))) t)))"

definition finish_delivery_task ::
  "'x ext \<Rightarrow> ('x, 'app) jsConsumer \<Rightarrow> js_msg \<Rightarrow> string \<Rightarrow> 'x delivery_info \<Rightarrow> int \<Rightarrow> go_error option
   \<Rightarrow> ('x, 'app, 'w) cworld_scheme task" where
  "finish_delivery_task E c msg routingKey deliveryInfo startTime result =
     (case result of
        Some err \<Rightarrow>
          exec (emit (SpanRecordError err))
          (exec (emit (SpanSetStatus StatusError (err_text E err)))
          (read (\<lambda>w. milliseconds (clock E (trace w) - startTime)) (\<lambda>elapsed.
           attempt (notifyEventHandlerFailed (jsc_errorCh c) deliveryInfo elapsed err)
          (settle_failure_task c msg routingKey elapsed err
          (exec (emit SpanEnd) Done)))))
      | None \<Rightarrow>
          read (\<lambda>w. milliseconds (clock E (trace w) - startTime)) (\<lambda>elapsed.
          exec (emit (SpanSetStatus StatusOk ''''))
          (attempt (notifyEventHandlerSucceed (jsc_notificationCh c) deliveryInfo elapsed)
          (exec (emit (MsgAck (jm_Id msg)))
          (eventAck_task (jsc_name c) routingKey elapsed
          (exec (log_at LevelDebug ''message processed'')
          (exec (emit SpanEnd) Done)))))))"

definition handleDelivery_task ::
  "'x ext \<Rightarrow> ('x, 'app) jsConsumer \<Rightarrow> ('x, 'app) wrappedHandler \<Rightarrow> js_msg \<Rightarrow> string
   \<Rightarrow> ('x, 'app, 'w) cworld_scheme task" where
  "handleDelivery_task E c handler msg routingKey =
     read (\<lambda>w. fromNATSHeaders E (map_rank E (trace w) ''fromNATSHeaders'') (jm_Headers msg)) (\<lambda>headers.
     let deliveryInfo = \<lparr>di_Destination = jsc_name c, di_Source = jsc_stream c,
                         di_Key = routingKey, di_Headers = headers\<rparr>;
         t = invoke_handler_task E c deliveryInfo (jm_Headers msg) (jm_Data msg) handler
               (\<lambda>result startTime.
                  finish_delivery_task E c msg routingKey deliveryInfo startTime result)
     in if spec_ValidateCEHeaders E headers \<noteq> []
        then exec (log_at LevelWarn ''incoming message has invalid CloudEvents headers'') t
        else t)"

definition handleMessage_task ::
  "'x ext \<Rightarrow> ('x, 'app) jsConsumer \<Rightarrow> js_msg \<Rightarrow> ('x, 'app, 'w) cworld_scheme task" where
  "handleMessage_task E c msg =
     (let routingKey = routing_key_of_subject (jm_Subject msg)
      in inc_task eventReceivedCounter (jsc_name c) routingKey
        (read (\<lambda>w. rkh_get E (map_rank E (trace w) ''get'') (jsc_handlers c) routingKey) (\<lambda>found.
         case found of
           None \<Rightarrow>
             exec (log_at LevelWarn ''no handler for routing key, rejecting'')
             (inc_task eventWithoutHandlerCounter (jsc_name c) routingKey
             (exec (emit (MsgTerm (jm_Id msg))) Done))
         | Some handler \<Rightarrow> handleDelivery_task E c handler msg routingKey)))"

definition respond_error_task ::
  "'x ext \<Rightarrow> nats_msg \<Rightarrow> go_error \<Rightarrow> ('x, 'w) world_scheme task \<Rightarrow> ('x, 'w) world_scheme task" where
  "respond_error_task E msg err t =
     (if msg_Reply msg \<noteq> ''''
      then exec (emit (MsgRespond (msg_Reply msg) (json_error_object (err_text E err)))) t
      else t)"

definition finish_core_task ::
  "'x ext \<Rightarrow> ('x, 'app) jsConsumer \<Rightarrow> nats_msg \<Rightarrow> string \<Rightarrow> 'x delivery_info \<Rightarrow> int \<Rightarrow> go_error option
   \<Rightarrow> ('x, 'app, 'w) cworld_scheme task" where
  "finish_core_task E c msg routingKey deliveryInfo startTime result =
     (case result of
        Some err \<Rightarrow>
          exec (emit (SpanRecordError err))
          (exec (emit (SpanSetStatus StatusError (err_text E err)))
          (read (\<lambda>w. milliseconds (clock E (trace w) - startTime)) (\<lambda>elapsed.
           attempt (notifyEventHandlerFailed (jsc_errorCh c) deliveryInfo elapsed err)
          (exec (log_at LevelError ''handler failed'')
          (eventNak_task (jsc_name c) routingKey elapsed
          (respond_error_task E msg err
          (exec (emit SpanEnd) Done)))))))
      | None \<Rightarrow>
          read (\<lambda>w. milliseconds (clock E (trace w) - startTime)) (\<lambda>elapsed.
          exec (emit (SpanSetStatus StatusOk ''''))
          (attempt (notifyEventHandlerSucceed (jsc_notificationCh c) deliveryInfo elapsed)
          (eventAck_task (jsc_name c) routingKey elapsed
          (exec (log_at LevelDebug ''message processed'')
          (exec (emit SpanEnd) Done))))))"

definition handleCoreMessage_task ::
  "'x ext \<Rightarrow> ('x, 'app) jsConsumer \<Rightarrow> nats_msg \<Rightarrow> string \<Rightarrow> ('x, 'app, 'w) cworld_scheme task" where
  "handleCoreMessage_task E c msg routingKey =
     inc_task eventReceivedCounter (jsc_name c) routingKey
     (read (\<lambda>w. rkh_get E (map_rank E (trace w) ''get'') (jsc_handlers c) routingKey) (\<lambda>found.
      case found of
        None \<Rightarrow>
          exec (log_at LevelWarn ''no handler for routing key'')
          (inc_task eventWithoutHandlerCounter (jsc_name c) routingKey Done)
      | Some handler \<Rightarrow>
          read (\<lambda>w. fromNATSHeaders E (map_rank E (trace w) ''fromNATSHeaders'') (msg_Header msg))
            (\<lambda>headers.
          let deliveryInfo = \<lparr>di_Destination = jsc_name c, di_Source = msg_Subject msg,
                              di_Key = routingKey, di_Headers = headers\<rparr>
          in invoke_handler_task E c deliveryInfo (msg_Header msg) (msg_Data msg) handler
               (\<lambda>result startTime.
                  finish_core_task E c msg routingKey deliveryInfo startTime result))))"

definition request_callback_task ::
  "'x ext \<Rightarrow> ('x, 'app) jsConsumer \<Rightarrow> string \<Rightarrow> string \<Rightarrow> ('x, 'app) requestResponseFn \<Rightarrow> nats_msg
   \<Rightarrow> ('x, 'app, 'w) cworld_scheme task" where
  "request_callback_task E consumer routingKey consName handler msg =
     read (\<lambda>w. fromNATSHeaders E (map_rank E (trace w) ''fromNATSHeaders'') (msg_Header msg)) (\<lambda>headers.
     let deliveryInfo = \<lparr>di_Destination = consName, di_Source = msg_Subject msg,
                         di_Key = routingKey, di_Headers = headers\<rparr>
     in invoke_handler_task E consumer deliveryInfo (msg_Header msg) (msg_Data msg) handler
       (\<lambda>result startTime.
          case result of
            Inl err \<Rightarrow>
              exec (emit (SpanRecordError err))
              (exec (emit (SpanSetStatus StatusError (err_text E err)))
              (exec (log_at LevelError ''request handler failed'')
              (respond_error_task E msg err
              (exec (emit SpanEnd) Done))))
          | Inr resp \<Rightarrow>
              exec (emit (SpanSetStatus StatusOk ''''))
              (let t = exec (emit SpanEnd) Done
               in if msg_Reply msg \<noteq> '''' then exec (emit (MsgRespond (msg_Reply msg) resp)) t else t)))"

definition deliver_core_task ::
  "'x ext \<Rightarrow> ('x, 'app) core_callback \<Rightarrow> nats_msg \<Rightarrow> ('x, 'app, 'w) cworld_scheme task" where
  "deliver_core_task E cb msg =
     (case cb of
        CoreCallback consumer routingKey \<Rightarrow> handleCoreMessage_task E consumer msg routingKey
      | RequestCallback consumer routingKey consName handler \<Rightarrow>
          request_callback_task E consumer routingKey consName handler msg)"

section \<open>Publishing, statement by statement\<close>

text \<open>The result for the caller is the last argument of \<open>k\<close>, which is whatever the caller does next.\<close>

definition finish_publish_task ::
  "'x ext \<Rightarrow> 'x Publisher \<Rightarrow> string \<Rightarrow> int \<Rightarrow> go_error option
   \<Rightarrow> (go_error option \<Rightarrow> ('x, 'w) world_scheme task) \<Rightarrow> ('x, 'w) world_scheme task" where
  "finish_publish_task E p routingKey elapsed result k =
     (case result of
        Some err \<Rightarrow>
          exec (emit (SpanRecordError err))
          (exec (emit (SpanSetStatus StatusError (err_text E err)))
          (inc_task eventPublishFailedCounter (p_stream p) routingKey
          (observe_task eventPublishDuration (p_stream p) routingKey ''ERROR'' elapsed
          (exec (emit SpanEnd) (k (Some err))))))
      | None \<Rightarrow>
          exec (emit (SpanSetStatus StatusOk ''''))
          (inc_task eventPublishSucceedCounter (p_stream p) routingKey
          (observe_task eventPublishDuration (p_stream p) routingKey ''OK'' elapsed
          (exec (emit SpanEnd) (k None)))))"

definition publishMessage_task ::
  "'x ext \<Rightarrow> 'x Publisher \<Rightarrow> 'x \<Rightarrow> string \<Rightarrow> (go_error + string) \<Rightarrow> nats_header
   \<Rightarrow> (go_error option \<Rightarrow> ('x, 'w) world_scheme task) \<Rightarrow> ('x, 'w) world_scheme task" where
  "publishMessage_task E p ctx routingKey marshalled headers k =
     (let tracer = (case p_tracer p of Some t \<Rightarrow> t | None \<Rightarrow> tracerFromProvider E None);
          spanNameFn = (case p_spanNameFn p of Some f \<Rightarrow> f | None \<Rightarrow> defaultPublishSpanName);
          subject = publish_subject E p routingKey;
          spanAttrs = publishSpanAttributes (p_stream p) subject (p_serviceName p);
          spanName = spanNameFn (p_stream p) routingKey;
          ctx = tracer_Start E tracer ctx spanName
      in exec (emit (SpanStart spanName SpanKindProducer spanAttrs))
        (case marshalled of
           Inl err \<Rightarrow>
             exec (emit (SpanRecordError err))
             (exec (emit (SpanSetStatus StatusError (err_text E err)))
             (exec (emit SpanEnd) (k (Some err))))
         | Inr jsonBytes \<Rightarrow>
             read (\<lambda>w. ce_headers E p routingKey (trace w) headers) (\<lambda>(messageID, headers).
             exec (emit (SpanSetAttributes
                     [(attrMessagingMessageID, AttrString messageID),
                      (attrMessagingBodySize, AttrInt (int (length jsonBytes)))]))
             (read (\<lambda>w. injectToHeaders E (map_rank E (trace w) ''injectToHeaders'') ctx headers
                          (p_propagator p)) (\<lambda>headers.
              let natsMsg = \<lparr>msg_Subject = subject, msg_Reply = '''', msg_Header = headers,
                             msg_Data = jsonBytes\<rparr>
              in read (\<lambda>w. clock E (trace w)) (\<lambda>startTime.
                 case p_publishFn p of
                   None \<Rightarrow> panic
                 | Some fn \<Rightarrow>
                     call (\<lambda>w. Some (call_publishFn E fn natsMsg w)) (\<lambda>result.
                     read (\<lambda>w. milliseconds (clock E (trace w) - startTime)) (\<lambda>elapsed.
                     finish_publish_task E p routingKey elapsed result k))))))))"

definition Publish_task ::
  "'x ext \<Rightarrow> 'x Publisher \<Rightarrow> 'x \<Rightarrow> string \<Rightarrow> ('v \<Rightarrow> go_error + string) \<Rightarrow> 'v \<Rightarrow> Header list
   \<Rightarrow> (go_error option \<Rightarrow> ('x, 'w) world_scheme task) \<Rightarrow> ('x, 'w) world_scheme task" where
  "Publish_task E p ctx routingKey marshal msg headers k =
     (let natsHeaders = fold (\<lambda>h nh. header_set E nh (h_Key h) (h_Value h)) (p_defaultHeaders p) []
      in case add_headers E headers natsHeaders of
           Inl err \<Rightarrow> k (Some err)
         | Inr natsHeaders \<Rightarrow> publishMessage_task E p ctx routingKey (marshal msg) natsHeaders k)"

section \<open>Closing and initialising the metrics, statement by statement\<close>

text \<open>Once the connection is started its consumers do not change, so that \<open>Close\<close> ranges over those it
  finds when it is called.\<close>

fun stop_tasks ::
  "jsConsumerHandle list \<Rightarrow> ('x, 'w) world_scheme task \<Rightarrow> ('x, 'w) world_scheme task" where
  "stop_tasks [] t = t"
| "stop_tasks (ch # chs) t =
     (case jh_ctx ch of
        Some i \<Rightarrow> exec (emit (ConsumeStop i)) (stop_tasks chs t)
      | None \<Rightarrow> stop_tasks chs t)"

definition Close_task ::
  "'x ext \<Rightarrow> ('x, 'app) connection \<Rightarrow> (go_error option \<Rightarrow> ('x, 'w) world_scheme task)
   \<Rightarrow> ('x, 'w) world_scheme task" where
  "Close_task E c k =
     (if \<not> conn_started c \<or> \<not> conn_nc c then k None
      else stop_tasks (conn_consumers c) (call (\<lambda>w. Some (perform E NcDrain w)) k))"

fun register_tasks ::
  "'x ext \<Rightarrow> metric_desc list \<Rightarrow> (go_error option \<Rightarrow> ('x, 'w) world_scheme task)
   \<Rightarrow> ('x, 'w) world_scheme task" where
  "register_tasks E [] k = k None"
| "register_tasks E (c # cs) k =
     call (\<lambda>w. Some (perform E (RegisterCollector c) w)) (\<lambda>result.
     case result of
       Some err \<Rightarrow>
         if \<not> errors_is err AlreadyRegisteredError then k (Some err) else register_tasks E cs k
     | None \<Rightarrow> register_tasks E cs k)"

definition InitMetrics_task ::
  "'x ext \<Rightarrow> MetricsOption list \<Rightarrow> (go_error option \<Rightarrow> ('x, 'w) world_scheme task)
   \<Rightarrow> ('x, 'w) world_scheme task" where
  "InitMetrics_task E opts k =
     (let cfg = fold (\<lambda>opt cfg. opt cfg) opts \<lparr>mc_routingKeyMapper = (\<lambda>s. s)\<rparr>
      in exec (\<lambda>w. w\<lparr>routingKeyMapperVal := mc_routingKeyMapper cfg\<rparr>)
        (register_tasks E collectors k))"

lemmas metric_task_defs = inc_task_def observe_task_def eventNak_task_def eventAck_task_def

section \<open>A task alone is the operation\<close>

lemma run_metric_tasks [simp]:
  "run (inc_task d name k t) w = run t (emit (CounterInc d [name, routingKeyLabel w k]) w)"
  "run (observe_task d' name k r ms t) w
     = run t (emit (HistogramObserve d' [name, routingKeyLabel w k, r] ms) w)"
  "run (eventNak_task name k ms t) w = run t (eventNak name k ms w)"
  "run (eventAck_task name k ms t) w = run t (eventAck name k ms w)"
  by (simp_all add: metric_task_defs eventNak_def eventAck_def)

lemma run_invoke_handler_task:
  "run (invoke_handler_task E c info hdr data h k) w
     = do { (r, t0, w') \<leftarrow> invoke_handler E c info hdr data h w; run (k r t0) w' }"
  by (cases "jsc_spanNameFn c")
    (simp_all add: invoke_handler_task_def invoke_handler_def Let_def bind_assoc case_prod_unfold)

lemma run_settle_failure_task:
  "run (settle_failure_task c msg k ms e t) w = run t (settle_failure c msg k ms e w)"
  by (simp add: settle_failure_task_def settle_failure_def Let_def eventNotParsable_def
      eventWithoutHandler_def)

lemma run_finish_delivery_task:
  "run (finish_delivery_task E c msg k info t0 r) w = finish_delivery E c msg k info t0 r w"
  by (cases r) (simp_all add: finish_delivery_task_def finish_delivery_def Let_def
      run_settle_failure_task)

lemma run_handleDelivery_task:
  "run (handleDelivery_task E c h msg k) w = handleDelivery E c h msg k w"
  by (simp add: handleDelivery_task_def handleDelivery_def Let_def run_invoke_handler_task
      run_finish_delivery_task)

lemma run_handleMessage_task: "run (handleMessage_task E c msg) w = handleMessage E c msg w"
  by (simp add: handleMessage_task_def handleMessage_def Let_def eventReceived_def
      eventWithoutHandler_def run_handleDelivery_task split: option.split)

lemma run_respond_error_task: "run (respond_error_task E msg e t) w = run t (respond_error E msg e w)"
  by (simp add: respond_error_task_def respond_error_def)

lemma run_finish_core_task:
  "run (finish_core_task E c msg k info t0 r) w = finish_core E c msg k info t0 r w"
  by (cases r) (simp_all add: finish_core_task_def finish_core_def Let_def run_respond_error_task)

lemma run_handleCoreMessage_task:
  "run (handleCoreMessage_task E c msg k) w = handleCoreMessage E c msg k w"
  by (simp add: handleCoreMessage_task_def handleCoreMessage_def Let_def eventReceived_def
      eventWithoutHandler_def run_invoke_handler_task run_finish_core_task split: option.split)

lemma run_request_callback_task:
  "run (request_callback_task E c k name h msg) w = request_callback E c k name h msg w"
  by (auto simp: request_callback_task_def request_callback_def Let_def run_invoke_handler_task
      run_respond_error_task intro!: Option.bind_cong split: sum.split)

lemma run_deliver_core_task: "run (deliver_core_task E cb msg) w = deliver_core E cb msg w"
  by (simp add: deliver_core_task_def deliver_core_def run_handleCoreMessage_task
      run_request_callback_task split: core_callback.split)

lemma run_finish_publish_task:
  "run (finish_publish_task E p k ms r t) w
     = (case finish_publish E p k ms r w of (r', w') \<Rightarrow> run (t r') w')"
  by (cases r) (simp_all add: finish_publish_task_def finish_publish_def Let_def
      eventPublishFailed_def eventPublishSucceed_def)

lemma run_publishMessage_task:
  "run (publishMessage_task E p ctx k m hs t) w
     = do { (r, w') \<leftarrow> publishMessage E p ctx k m hs w; run (t r) w' }"
  by (cases m; cases "p_publishFn p")
    (simp_all add: publishMessage_task_def publishMessage_def Let_def run_finish_publish_task
      case_prod_unfold)

lemma run_Publish_task:
  "run (Publish_task E p ctx k marshal msg headers t) w
     = do { (r, w') \<leftarrow> Publish E p ctx k marshal msg headers w; run (t r) w' }"
  by (simp add: Publish_task_def Publish_def Let_def run_publishMessage_task split: sum.split)

lemma run_stop_tasks: "run (stop_tasks chs t) w = run t (fold stop_handle chs w)"
  by (induction chs arbitrary: w) (simp_all add: stop_handle_def split: option.split)

lemma run_Close_task:
  "run (Close_task E c k) w = (case Close E c w of (r, w') \<Rightarrow> run (k r) w')"
  by (simp add: Close_task_def Close_def run_stop_tasks split: prod.split)

lemma run_register_tasks:
  "run (register_tasks E cs k) w = (case register_collectors E cs w of (r, w') \<Rightarrow> run (k r) w')"
  by (induction cs arbitrary: w) (simp_all add: perform_def split: option.split)

lemma run_InitMetrics_task:
  "run (InitMetrics_task E opts k) w = (case InitMetrics E opts w of (r, w') \<Rightarrow> run (k r) w')"
  by (simp add: InitMetrics_task_def InitMetrics_def Let_def run_register_tasks)

section \<open>What the tasks do on every path\<close>

text \<open>The outcomes a session owes: every delivered message is settled, every accepted message is
  published.\<close>

datatype outcome = Settlement nat | Publication

fun outcome_of :: "'x call \<Rightarrow> outcome option" where
  "outcome_of (MsgAck i) = Some (Settlement i)"
| "outcome_of (MsgNak i) = Some (Settlement i)"
| "outcome_of (MsgTerm i) = Some (Settlement i)"
| "outcome_of (PublishMsg m) = Some Publication"
| "outcome_of (RequestMsg m t) = Some Publication"
| "outcome_of _ = None"

definition outcomes :: "('x, 'w) world_scheme \<Rightarrow> outcome list" where
  "outcomes w = List.map_filter outcome_of (trace w)"

lemma outcomes_emit [simp]:
  "outcomes (emit x w) = outcomes w @ (case outcome_of x of None \<Rightarrow> [] | Some y \<Rightarrow> [y])"
  by (simp add: outcomes_def map_filter_simps split: option.split)

lemma outcomes_log [simp]: "outcomes (log_at l m w) = outcomes w"
  by (simp add: log_at_def)

lemma outcomes_trace: "trace w' = trace w \<Longrightarrow> outcomes w' = outcomes w"
  by (simp add: outcomes_def)

lemma outcomes_app [simp]: "outcomes (w\<lparr>app := s\<rparr>) = outcomes w"
  by (simp add: outcomes_def)

definition chans_open :: "('x, 'app, 'w) cworld_scheme \<Rightarrow> bool" where
  "chans_open w \<longleftrightarrow> (\<forall>i. \<not> ch_closed (nchans w i)) \<and> (\<forall>i. \<not> ch_closed (echans w i))"

lemma chans_open_notify:
  assumes "chans_open w"
  shows "notifyEventHandlerSucceed ch info took w \<noteq> None"
    "notifyEventHandlerFailed ch info took err w \<noteq> None"
proof -
  have "channels_open ch ch w" using assms by (simp add: chans_open_def channels_open_def)
  from notify_succeed_defined [OF this] notify_failed_defined [OF this]
  show "notifyEventHandlerSucceed ch info took w \<noteq> None"
    "notifyEventHandlerFailed ch info took err w \<noteq> None" by fastforce+
qed

text \<open>Metric updates and the handler, for each predicate.\<close>

lemma metric_tasks_pays:
  "pays outcomes xs t \<Longrightarrow> pays outcomes xs (inc_task d name k t)"
  "pays outcomes xs t \<Longrightarrow> pays outcomes xs (observe_task d name k r ms t)"
  by (simp_all add: inc_task_def observe_task_def pays_silent)

lemma metric_tasks_unfailing [task_rules]:
  "unfailing P t \<Longrightarrow> unfailing P (inc_task d name k t)"
  "unfailing P t \<Longrightarrow> unfailing P (observe_task d name k r ms t)"
  by (simp_all add: inc_task_def observe_task_def task_rules)

lemma metric_tasks_within:
  "within n t \<Longrightarrow> within (Suc n) (inc_task d name k t)"
  "within n t \<Longrightarrow> within (Suc n) (observe_task d name k r ms t)"
  by (simp_all add: inc_task_def observe_task_def within_actions)

lemma metric_tasks_keeps:
  "(\<And>w :: ('x, 'app) nworld. well_labelled d [name, routingKeyLabel w k]) \<Longrightarrow>
   guarantees keeps (t :: ('x, 'app) nworld task) \<Longrightarrow>
   guarantees keeps (inc_task d name k t)"
  "(\<And>w :: ('x, 'app) nworld. well_labelled d [name, routingKeyLabel w k, r]) \<Longrightarrow>
   guarantees keeps (t :: ('x, 'app) nworld task) \<Longrightarrow>
   guarantees keeps (observe_task d name k r ms t)"
  by (auto simp: inc_task_def observe_task_def intro!: guarantees_actions keeps_emit)

lemma emit_tasks_keeps:
  "labels_match x \<Longrightarrow> guarantees keeps t \<Longrightarrow> guarantees keeps (exec (emit x) t)"
  "guarantees keeps t \<Longrightarrow> guarantees keeps (exec (log_at l m) t)"
  "(\<And>a. guarantees keeps (k a)) \<Longrightarrow> guarantees keeps (read h k)"
  by (simp_all add: task_rules keeps_emit keeps_log)

lemma invoke_task_keeps:
  "(\<And>r t0. guarantees keeps (k r t0)) \<Longrightarrow>
   guarantees keeps (invoke_handler_task E c info hdr data h k)"
  by (auto simp: invoke_handler_task_def Let_def bind_eq_Some_conv keeps_emit keeps_def channels_ok_def
      intro!: emit_tasks_keeps task_rules split: option.split)

lemma invoke_task_pays:
  "(\<And>r t0. pays outcomes xs (k r t0)) \<Longrightarrow>
   pays outcomes xs (invoke_handler_task E c info hdr data h k)"
  by (auto simp: invoke_handler_task_def Let_def bind_eq_Some_conv outcomes_def map_filter_simps
      intro!: pays_silent split: option.split)

lemma call_defined: "m \<noteq> None \<Longrightarrow> do { (r, s) \<leftarrow> m; Some (r, g s) } \<noteq> None"
  by (cases m) auto

lemma invoke_task_unfailing:
  assumes "jsc_spanNameFn c \<noteq> None" and "total_handler h" and "\<And>r t0. unfailing P (k r t0)"
  shows "unfailing P (invoke_handler_task E c info hdr data h k)"
proof -
  have "\<exists>r s'. h ctx ev s = Some (r, s')" for ctx ev s
    using assms(2) unfolding total_handler_def by (metis not_None_eq surj_pair)
  with assms(1,3) show ?thesis
    by (auto simp: invoke_handler_task_def Let_def
        intro!: unfailing_actions call_defined split: option.split)
qed

lemma invoke_task_within:
  "(\<And>r t0. within n (k r t0)) \<Longrightarrow> within (n + 5) (invoke_handler_task E c info hdr data h k)"
  by (auto simp: invoke_handler_task_def Let_def numeral_eq_Suc intro!: within_actions within_ends
      split: option.split)

lemma emit_tasks_pays:
  "outcome_of x = None \<Longrightarrow> pays outcomes xs t \<Longrightarrow> pays outcomes xs (exec (emit x) t)"
  "outcome_of y = Some z \<Longrightarrow> pays outcomes [] t \<Longrightarrow> pays outcomes [z] (exec (emit y) t)"
  "pays outcomes xs t \<Longrightarrow> pays outcomes xs (exec (log_at l m) t)"
  "(\<And>a. pays outcomes xs (k a)) \<Longrightarrow> pays outcomes xs (read h k)"
  using pays_exec [of outcomes "emit y" "[z]" "[]" t] by (simp_all add: pays_silent)

lemma notify_tasks_keeps:
  "guarantees keeps t \<Longrightarrow> guarantees keeps (attempt (notifyEventHandlerSucceed ch info ms) t)"
  "guarantees keeps t \<Longrightarrow> guarantees keeps (attempt (notifyEventHandlerFailed ch info ms e) t)"
  by (blast intro: guarantees_actions keeps_notify_succeed keeps_notify_failed)+

lemma notify_tasks_pays:
  "pays outcomes xs u \<Longrightarrow> pays outcomes xs (attempt (notifyEventHandlerSucceed ch info ms) u)"
  "pays outcomes xs u \<Longrightarrow> pays outcomes xs (attempt (notifyEventHandlerFailed ch info ms e) u)"
  by (blast intro: pays_silent outcomes_trace notify_succeed_frame(1) notify_failed_frame(1))+

lemma notify_tasks_unfailing:
  "unfailing chans_open u \<Longrightarrow>
     unfailing chans_open (attempt (notifyEventHandlerSucceed ch info ms) u)"
  "unfailing chans_open u \<Longrightarrow>
     unfailing chans_open (attempt (notifyEventHandlerFailed ch info ms e) u)"
  by (rule unfailing_actions(3), erule chans_open_notify, assumption)+

lemmas task_keeps = emit_tasks_keeps metric_tasks_keeps notify_tasks_keeps guarantees_ends
lemmas task_pays = emit_tasks_pays metric_tasks_pays notify_tasks_pays
lemmas task_unfailing = unfailing_actions(1,2) metric_tasks_unfailing notify_tasks_unfailing
  unfailing_Done
lemmas task_within = within_actions metric_tasks_within within_ends

text \<open>Processing a JetStream message.\<close>

lemma settle_task_keeps:
  "guarantees keeps t \<Longrightarrow> guarantees keeps (settle_failure_task c msg k ms e t)"
  by (simp add: settle_failure_task_def eventNak_task_def task_keeps)

lemma settle_task_pays:
  "pays outcomes [] t \<Longrightarrow> pays outcomes [Settlement (jm_Id msg)] (settle_failure_task c msg k ms e t)"
  by (simp add: settle_failure_task_def eventNak_task_def task_pays)

lemma settle_task_unfailing:
  "unfailing chans_open t \<Longrightarrow> unfailing chans_open (settle_failure_task c msg k ms e t)"
  by (simp add: settle_failure_task_def eventNak_task_def task_unfailing)

lemma settle_task_within:
  "within n t \<Longrightarrow> within (Suc (Suc (Suc (Suc n)))) (settle_failure_task c msg k ms e t)"
  by (auto simp: settle_failure_task_def eventNak_task_def
      intro!: within_actions metric_tasks_within intro: within_mono)

lemma finish_delivery_keeps: "guarantees keeps (finish_delivery_task E c msg k info t0 r)"
  by (simp add: finish_delivery_task_def eventAck_task_def task_keeps settle_task_keeps
      split: option.split)

lemma finish_delivery_pays:
  "pays outcomes [Settlement (jm_Id msg)] (finish_delivery_task E c msg k info t0 r)"
  by (simp add: finish_delivery_task_def eventAck_task_def task_pays settle_task_pays
      split: option.split)

lemma finish_delivery_unfailing:
  "unfailing chans_open (finish_delivery_task E c msg k info t0 r)"
  by (simp add: finish_delivery_task_def eventAck_task_def task_unfailing settle_task_unfailing
      split: option.split)

lemma finish_delivery_within: "within 9 (finish_delivery_task E c msg k info t0 r)"
  by (auto simp: finish_delivery_task_def eventAck_task_def numeral_eq_Suc
      intro!: task_within settle_task_within split: option.split)

lemma handleMessage_task_keeps: "guarantees keeps (handleMessage_task E c msg)"
  by (auto simp: handleMessage_task_def handleDelivery_task_def Let_def
      intro!: task_keeps invoke_task_keeps finish_delivery_keeps split: option.split)

lemma handleMessage_task_pays: "pays outcomes [Settlement (jm_Id msg)] (handleMessage_task E c msg)"
  by (simp add: handleMessage_task_def handleDelivery_task_def Let_def task_pays invoke_task_pays
      finish_delivery_pays split: option.split)

lemma unfailing_lookup:
  assumes "\<And>h. h \<in> snd ` set hs \<Longrightarrow> unfailing P (k (Some h))" and "unfailing P (k None)"
  shows "unfailing P (read (\<lambda>w. rkh_get E (r w) hs key) k)"
proof -
  have "unfailing P (k (rkh_get E (r w) hs key))" for w
    using assms rkh_get_member by (cases "rkh_get E (r w) hs key") fastforce+
  then show ?thesis by (auto simp: read_def intro!: unfailing.act)
qed

lemma handleMessage_task_unfailing:
  assumes "jsc_spanNameFn c \<noteq> None" and "\<forall>h \<in> snd ` set (jsc_handlers c). total_handler h"
  shows "unfailing chans_open (handleMessage_task E c msg)"
proof -
  have "unfailing chans_open (handleDelivery_task E c h msg k)" if "total_handler h" for h k
    using assms(1) that
    by (simp add: handleDelivery_task_def Let_def task_unfailing invoke_task_unfailing
        finish_delivery_unfailing)
  then show ?thesis
    unfolding handleMessage_task_def Let_def
    by (intro metric_tasks_unfailing unfailing_lookup) (use assms(2) in \<open>auto intro!: task_unfailing\<close>)
qed

lemma handleMessage_task_within: "within 18 (handleMessage_task E c msg)"
proof -
  have invoke: "within 14 (invoke_handler_task E c info hdr data h
      (\<lambda>r t0. finish_delivery_task E c msg k info' t0 r))" for info hdr data h k info'
    using invoke_task_within [OF finish_delivery_within] by simp
  have "within 16 (handleDelivery_task E c h msg k)" for h k
    by (auto simp: handleDelivery_task_def Let_def intro!: invoke within_mono [OF invoke]
        within_actions(2) [of 15, simplified] within_actions(1) [of 14, simplified])
  moreover have "within 16 (exec g (inc_task d name k (exec g' Done)))"
    for g g' :: "('a, 'b, 'c) cworld_scheme \<Rightarrow> ('a, 'b, 'c) cworld_scheme" and d name k
    by (simp add: numeral_eq_Suc task_within)
  ultimately show ?thesis
    unfolding handleMessage_task_def Let_def
    by (auto intro!: metric_tasks_within(1) [of 17, simplified] within_actions(2) [of 16, simplified]
        split: option.split)
qed

text \<open>Processing a Core NATS message.\<close>

lemma respond_task_rules:
  "guarantees keeps t \<Longrightarrow> guarantees keeps (respond_error_task E msg e t)"
  "pays outcomes [] u \<Longrightarrow> pays outcomes [] (respond_error_task E msg e u)"
  "unfailing P u' \<Longrightarrow> unfailing P (respond_error_task E msg e u')"
  "within n u'' \<Longrightarrow> within (Suc n) (respond_error_task E msg e u'')"
  by (auto simp: respond_error_task_def task_keeps task_pays task_unfailing
      intro: task_within within_mono)

lemma finish_core_keeps: "guarantees keeps (finish_core_task E c msg k info t0 r)"
  by (simp add: finish_core_task_def eventAck_task_def eventNak_task_def task_keeps
      respond_task_rules split: option.split)

lemma finish_core_pays: "pays outcomes [] (finish_core_task E c msg k info t0 r)"
  by (simp add: finish_core_task_def eventAck_task_def eventNak_task_def task_pays
      respond_task_rules split: option.split)

lemma finish_core_unfailing: "unfailing chans_open (finish_core_task E c msg k info t0 r)"
  by (simp add: finish_core_task_def eventAck_task_def eventNak_task_def task_unfailing
      respond_task_rules split: option.split)

lemma finish_core_within: "within 9 (finish_core_task E c msg k info t0 r)"
  by (auto simp: finish_core_task_def eventAck_task_def eventNak_task_def numeral_eq_Suc
      intro!: task_within respond_task_rules(4) split: option.split)

lemma deliver_core_keeps: "guarantees keeps (deliver_core_task E cb msg)"
  by (cases cb) (auto simp: deliver_core_task_def handleCoreMessage_task_def request_callback_task_def
      Let_def intro!: task_keeps invoke_task_keeps finish_core_keeps respond_task_rules
      split: option.split sum.split)

lemma deliver_core_pays: "pays outcomes [] (deliver_core_task E cb msg)"
  by (cases cb) (simp_all add: deliver_core_task_def handleCoreMessage_task_def
      request_callback_task_def Let_def task_pays invoke_task_pays finish_core_pays respond_task_rules
      split: option.split sum.split)

fun calm_callback :: "('x, 'app) core_callback \<Rightarrow> bool" where
  "calm_callback (CoreCallback c k) \<longleftrightarrow> (\<forall>h \<in> snd ` set (jsc_handlers c). total_handler h)"
| "calm_callback (RequestCallback c k name h) \<longleftrightarrow> total_handler h"

lemma deliver_core_unfailing:
  assumes "jsc_spanNameFn (cb_consumer cb) \<noteq> None" and "calm_callback cb"
  shows "unfailing chans_open (deliver_core_task E cb msg)"
proof (cases cb)
  case (CoreCallback c k)
  show ?thesis
    unfolding CoreCallback deliver_core_task_def handleCoreMessage_task_def Let_def core_callback.case
    by (intro metric_tasks_unfailing unfailing_lookup)
      (use assms CoreCallback in
        \<open>auto intro!: task_unfailing invoke_task_unfailing finish_core_unfailing\<close>)
next
  case (RequestCallback c k name h)
  with assms show ?thesis
    by (auto simp: deliver_core_task_def request_callback_task_def Let_def
        intro!: task_unfailing invoke_task_unfailing respond_task_rules split: sum.split)
qed

lemma deliver_core_within: "within 18 (deliver_core_task E cb msg)"
proof (cases cb)
  case (CoreCallback c k)
  have "within 14 (invoke_handler_task E c info hdr data h
      (\<lambda>r t0. finish_core_task E c msg k info' t0 r))" for info hdr data h info'
    using invoke_task_within [OF finish_core_within] by simp
  then have "within 16 (read g (\<lambda>hs. invoke_handler_task E c (info hs) hdr data h
      (\<lambda>r t0. finish_core_task E c msg k (info hs) t0 r)))" for g info hdr data h
    by (intro within_mono [OF within_actions(2) [of 14]]) simp_all
  moreover have "within 16 (exec g (inc_task d name k Done))"
    for g :: "('a, 'b, 'c) cworld_scheme \<Rightarrow> ('a, 'b, 'c) cworld_scheme" and d name k
    by (simp add: numeral_eq_Suc task_within)
  ultimately show ?thesis
    unfolding CoreCallback deliver_core_task_def handleCoreMessage_task_def Let_def core_callback.case
    by (auto intro!: metric_tasks_within(1) [of 17, simplified] within_actions(2) [of 16, simplified]
        split: option.split)
next
  case (RequestCallback c k name h)
  have "within 5 (case r of
      Inl err \<Rightarrow> exec (emit (SpanRecordError err)) (exec (emit (SpanSetStatus StatusError (err_text E err)))
        (exec (log_at LevelError ''request handler failed'') (respond_error_task E msg err
          (exec (emit SpanEnd) Done))))
    | Inr resp \<Rightarrow> exec (emit (SpanSetStatus StatusOk [])) (if msg_Reply msg \<noteq> []
        then exec (emit (MsgRespond (msg_Reply msg) resp)) (exec (emit SpanEnd) Done)
        else exec (emit SpanEnd) Done))" for r
    by (auto simp: numeral_eq_Suc intro!: task_within respond_task_rules(4) split: sum.split)
  from invoke_task_within [OF this] show ?thesis
    unfolding RequestCallback deliver_core_task_def request_callback_task_def Let_def core_callback.case
    by (intro within_mono [OF within_actions(2) [of 10]]) simp_all
qed

text \<open>Publishing.\<close>

definition publish_promise :: "Header list \<Rightarrow> (go_error + string) \<Rightarrow> outcome list" where
  "publish_promise headers marshalled =
     (if (\<exists>h \<in> set headers. validateKey h \<noteq> None) \<or> isl marshalled then [] else [Publication])"

lemma call_publish_keeps:
  "(\<And>r. guarantees keeps (k r)) \<Longrightarrow>
   guarantees keeps (call (\<lambda>w. Some (call_publishFn E fn m w)) k)"
  by (auto simp: call_publishFn_eq intro!: guarantees_actions(4) keeps_emit)

lemma outcome_of_publish [simp]: "outcome_of (publish_call fn m) = Some Publication"
  by (cases fn) simp_all

lemma call_publish_pays:
  assumes "\<And>r. pays outcomes [] (k r)"
  shows "pays outcomes [Publication] (call (\<lambda>w. Some (call_publishFn E fn m w)) k)"
  unfolding call_def
  by (rule pays.act, rule exI [of _ "[Publication]"], rule exI [of _ "[]"])
    (auto simp: call_publishFn_eq assms)

lemma finish_publish_task_rules:
  "guarantees keeps (finish_publish_task E p k ms r (\<lambda>_. Done))"
  "pays outcomes [] (finish_publish_task E p k ms r (\<lambda>_. Done))"
  "unfailing P (finish_publish_task E p k ms r (\<lambda>_. Done))"
  "within 5 (finish_publish_task E p k ms r (\<lambda>_. Done))"
  by (auto simp: finish_publish_task_def numeral_eq_Suc task_pays
      intro!: task_keeps task_unfailing task_within split: option.split)

lemma Publish_task_keeps: "guarantees keeps (Publish_task E p ctx k marshal m headers (\<lambda>_. Done))"
  by (auto simp: Publish_task_def publishMessage_task_def Let_def
      intro!: task_keeps call_publish_keeps finish_publish_task_rules
      split: sum.split option.split prod.split)

lemma Publish_task_pays:
  "pays outcomes (publish_promise headers (marshal m))
     (Publish_task E p ctx k marshal m headers (\<lambda>_. Done))"
  by (auto simp: Publish_task_def publishMessage_task_def publish_promise_def Let_def add_headers_eq
      find_None_iff find_Some_iff isl_def task_pays call_publish_pays finish_publish_task_rules
      split: sum.split option.split prod.split)

lemma Publish_task_unfailing:
  "p_publishFn p \<noteq> None \<Longrightarrow> unfailing P (Publish_task E p ctx k marshal m headers (\<lambda>_. Done))"
  by (auto simp: Publish_task_def publishMessage_task_def Let_def
      intro!: task_unfailing unfailing_actions(4) finish_publish_task_rules
      split: sum.split option.split prod.split)

lemma Publish_task_within: "within 18 (Publish_task E p ctx k marshal m headers (\<lambda>_. Done))"
  using finish_publish_task_rules(4)
  by (auto simp: Publish_task_def publishMessage_task_def Let_def numeral_eq_Suc
      intro!: task_within within_mono [OF finish_publish_task_rules(4)]
      split: sum.split option.split prod.split)

text \<open>Closing, and initialising the metrics.\<close>

lemma call_perform:
  "labels_match x \<Longrightarrow> (\<And>r. guarantees keeps (k r)) \<Longrightarrow>
     guarantees keeps (call (\<lambda>w. Some (perform E x w)) k)"
  "outcome_of x = None \<Longrightarrow> (\<And>r. pays outcomes xs (k' r)) \<Longrightarrow>
     pays outcomes xs (call (\<lambda>w. Some (perform E x w)) k')"
  "(\<And>r. unfailing P (k'' r)) \<Longrightarrow> unfailing P (call (\<lambda>w. Some (perform E x w)) k'')"
  by (auto simp: perform_def intro!: guarantees_actions(4) keeps_emit pays_silent(4)
      unfailing_actions(4))

lemma stop_tasks_rules:
  "guarantees keeps t \<Longrightarrow> guarantees keeps (stop_tasks chs t)"
  "pays outcomes xs u \<Longrightarrow> pays outcomes xs (stop_tasks chs u)"
  "unfailing P u' \<Longrightarrow> unfailing P (stop_tasks chs u')"
  "within n u'' \<Longrightarrow> within (length chs + n) (stop_tasks chs u'')"
  by (induction chs) (auto intro!: task_keeps task_pays task_unfailing task_within
      intro: within_mono [of "_ + n"] split: option.split)

lemma stop_drain_within:
  "within (length chs + 1) (stop_tasks chs (call (\<lambda>w. Some (perform E NcDrain w)) (\<lambda>_. Done)))"
  by (intro stop_tasks_rules) (simp add: task_within)

lemma Close_task_rules:
  "guarantees keeps (Close_task E c (\<lambda>_. Done))"
  "pays outcomes [] (Close_task E c (\<lambda>_. Done))"
  "unfailing P (Close_task E c (\<lambda>_. Done))"
  "within (Suc (length (conn_consumers c))) (Close_task E c (\<lambda>_. Done))"
  by (auto simp: Close_task_def within_ends stop_drain_within [simplified]
      intro!: stop_tasks_rules call_perform task_keeps task_unfailing)

lemma register_tasks_rules:
  "guarantees keeps (register_tasks E cs (\<lambda>_. Done))"
  "pays outcomes [] (register_tasks E cs (\<lambda>_. Done))"
  "unfailing P (register_tasks E cs (\<lambda>_. Done))"
  "within (length cs) (register_tasks E cs (\<lambda>_. Done))"
  by (induction cs) (auto intro!: call_perform task_keeps task_unfailing task_within
      split: option.split)

lemma InitMetrics_task_rules:
  "guarantees keeps (InitMetrics_task E opts (\<lambda>_. Done))"
  "pays outcomes [] (InitMetrics_task E opts (\<lambda>_. Done))"
  "unfailing P (InitMetrics_task E opts (\<lambda>_. Done))"
  "within 18 (InitMetrics_task E opts (\<lambda>_. Done))"
proof -
  have "within (Suc (length collectors)) (InitMetrics_task E opts (\<lambda>_. Done))"
    by (auto simp: InitMetrics_task_def Let_def intro!: task_within register_tasks_rules)
  then show "within 18 (InitMetrics_task E opts (\<lambda>_. Done))"
    by (rule within_mono) (simp add: collectors_def)
qed (auto simp: InitMetrics_task_def Let_def keeps_def channels_ok_def outcomes_def
    intro!: guarantees_actions(1) pays_silent(1) task_unfailing register_tasks_rules
    register_tasks_rules(2) [unfolded outcomes_def])

section \<open>The concurrent session\<close>

text \<open>
  What a goroutine was started for. A publisher is wired when it is used, and is not rewired while a
  message is being published with it; a setup function and a collecting run are one step each. \<open>Start\<close> runs in a goroutine of its own: as its documentation
  demands, it is not called while it is running. Messages arrive as soon as a callback is registered,
  also while \<open>Start\<close> goes on with other consumers or fails.
\<close>

datatype ('x, 'app) job =
    JsJob "('x, 'app) jsConsumer" js_msg
  | CoreJob "('x, 'app) core_callback" nats_msg
  | PublishJob "Header list" "go_error + string"
  | RawJob
  | CloseJob "('x, 'app) connection"
  | MetricsJob "MetricsOption list"

type_synonym ('x, 'app) jobs = "(('x, 'app) job, ('x, 'app) nworld) pool"

type_synonym ('x, 'app) csession =
  "('x, 'app) connection \<times> ('x, 'app) phase \<times> ('x, 'app) jobs \<times> ('x, 'app) nworld"

inductive cstep :: "'x ext \<Rightarrow> ('x, 'app) csession \<Rightarrow> ('x, 'app) csession \<Rightarrow> bool" for E :: "'x ext" where
  starting: "\<not> running ph \<Longrightarrow> \<forall>f \<in> set fs. safe_setup E (snd f) \<Longrightarrow> begin_start fs c = (ph', c') \<Longrightarrow>
     cstep E (c, ph, js, w) (c', ph', js, w)"
| start: "start_step E ph c w = Some (ph', c', w') \<Longrightarrow> cstep E (c, ph, js, w) (c', ph', js, w')"
| close: "cstep E (c, ph, js, w) (c, ph, js @ [(CloseJob c, Close_task E c (\<lambda>_. Done))], w)"
| metrics: "cstep E (c, ph, js, w)
     (c, ph, js @ [(MetricsJob opts, InitMetrics_task E opts (\<lambda>_. Done))], w)"
| collect: "\<forall>f \<in> set gs. pkg_setup E f \<Longrightarrow> CollectTopology service gs w = Some (tp, w') \<Longrightarrow>
     cstep E (c, ph, js, w) (c, ph, js, w')"
| application: "app_change w w' \<Longrightarrow> cstep E (c, ph, js, w) (c, ph, js, w')"
| deliver_js: "(s, cfg, consumer) \<in> set (js_callbacks w) \<Longrightarrow>
     cstep E (c, ph, js, w) (c, ph, js @ [(JsJob consumer msg, handleMessage_task E consumer msg)], w)"
| deliver_core: "(subject, cb) \<in> set (core_callbacks w) \<Longrightarrow>
     cstep E (c, ph, js, w) (c, ph, js @ [(CoreJob cb msg', deliver_core_task E cb msg')], w)"
| publish: "p_publishFn (pubs w pid) \<noteq> None \<Longrightarrow>
     cstep E (c, ph, js, w) (c, ph, js @ [(PublishJob headers marshalled,
       Publish_task E (pubs w pid) ctx k (\<lambda>_. marshalled) () headers (\<lambda>_. Done))], w)"
| publish_raw: "p_publishFn (pubs w pid) = Some fn \<Longrightarrow>
     cstep E (c, ph, js, w) (c, ph, js @ [(RawJob,
       exec (\<lambda>w'. snd (PublishRaw E (NewOutboxRawPublisher (pubs w pid)) k payload hs w')) Done)], w)"
| advance: "advance (js, w) (js', w') \<Longrightarrow> cstep E (c, ph, js, w) (c, ph, js', w')"

inductive creachable :: "'x ext \<Rightarrow> ('x, 'app) csession \<Rightarrow> bool" for E :: "'x ext" where
  init: "NewConnection service url opts = Inr c \<Longrightarrow> fresh_world w \<Longrightarrow> creachable E (c, Idle, [], w)"
| step: "creachable E s \<Longrightarrow> cstep E s s' \<Longrightarrow> creachable E s'"

text \<open>The goroutines go on with what they have begun, \<open>Start\<close> among them; nothing new is begun.\<close>

inductive progress ::
  "'x ext \<Rightarrow> nat \<Rightarrow> ('x, 'app) csession \<Rightarrow> ('x, 'app) csession \<Rightarrow> bool" for E :: "'x ext" where
  none: "progress E 0 s s"
| job: "advance (js, w) (js', w') \<Longrightarrow> progress E n (c, ph, js', w') s \<Longrightarrow>
     progress E (Suc n) (c, ph, js, w) s"
| start: "start_step E ph c w = Some (ph', c', w') \<Longrightarrow> progress E n (c', ph', js, w') s \<Longrightarrow>
     progress E (Suc n) (c, ph, js, w) s"

fun promise :: "('x, 'app) job \<Rightarrow> outcome list" where
  "promise (JsJob c msg) = [Settlement (jm_Id msg)]"
| "promise (CoreJob cb msg) = []"
| "promise (PublishJob headers marshalled) = publish_promise headers marshalled"
| "promise RawJob = [Publication]"
| "promise (CloseJob c) = []"
| "promise (MetricsJob opts) = []"

fun limit :: "('x, 'app) job \<Rightarrow> nat" where
  "limit (CloseJob c) = Suc (length (conn_consumers c))"
| "limit _ = 18"

fun calm_job :: "('x, 'app) job \<Rightarrow> bool" where
  "calm_job (JsJob c msg) \<longleftrightarrow> (\<forall>h \<in> snd ` set (jsc_handlers c). total_handler h)"
| "calm_job (CoreJob cb msg) \<longleftrightarrow> calm_callback cb"
| "calm_job _ \<longleftrightarrow> True"

definition job_ok :: "('x, 'app) job \<times> ('x, 'app) nworld task \<Rightarrow> bool" where
  "job_ok = (\<lambda>(j, t). guarantees keeps t \<and> within (limit j) t \<and> (calm_job j \<longrightarrow> unfailing chans_open t))"

definition csession_ok :: "'x ext \<Rightarrow> ('x, 'app) csession \<Rightarrow> bool" where
  "csession_ok E s \<longleftrightarrow> (case s of (c, ph, js, w) \<Rightarrow>
     session_ok (recorded ph c, w) \<and> phase_ok E ph c \<and> list_all job_ok js \<and>
     balanced outcomes promise js w)"

fun effect_outcome :: "effect \<Rightarrow> outcome option" where
  "effect_outcome (Settled i d) = Some (Settlement i)"
| "effect_outcome (Published m t) = Some Publication"
| "effect_outcome _ = None"

lemma outcome_of_effect: "outcome_of x = Option.bind (effect_of x) effect_outcome"
  by (cases x) simp_all

lemma outcomes_effects: "outcomes w = List.map_filter effect_outcome (effects w)"
proof -
  have "List.map_filter outcome_of t = List.map_filter effect_outcome (List.map_filter effect_of t)"
    for t :: "'a call list"
    by (induction t) (auto simp: map_filter_simps outcome_of_effect split: option.split)
  then show ?thesis by (simp add: outcomes_def effects_def)
qed

lemma outcomes_same_effects: "effects w' = effects w \<Longrightarrow> outcomes w' = outcomes w"
  by (simp add: outcomes_effects)

lemma created_outcome:
  "list_all (\<lambda>e. \<exists>s cfg. e = Created s cfg) es \<Longrightarrow> List.map_filter effect_outcome es = []"
  by (induction es) (auto simp: map_filter_simps)

lemma start_frame_outcomes: "start_frame w w' \<Longrightarrow> outcomes w' = outcomes w"
  by (auto simp: start_frame_def outcomes_effects created_outcome)

lemma CollectTopology_outcomes:
  assumes "\<forall>f \<in> set fs. pkg_setup E f" and "CollectTopology service fs w = Some (r, w')"
  shows "outcomes w' = outcomes w"
  using assms
proof (rule CollectTopology_frame)
  fix u
  assume "trace w' = trace w @ u" "list_all (setup_call True) u"
  then have "effects w' = effects w"
    by (intro effects_quiet) (auto simp: list_all_iff intro: setup_call_quiet)
  then show ?thesis by (rule outcomes_same_effects)
qed

text \<open>The jobs when they are started.\<close>

lemma new_jobs_ok:
  "jsc_spanNameFn consumer \<noteq> None \<Longrightarrow> job_ok (JsJob consumer msg, handleMessage_task E consumer msg)"
  "jsc_spanNameFn (cb_consumer cb) \<noteq> None \<Longrightarrow> job_ok (CoreJob cb msg', deliver_core_task E cb msg')"
  "p_publishFn p \<noteq> None \<Longrightarrow> job_ok (PublishJob headers marshalled,
     Publish_task E p ctx k (\<lambda>_. marshalled) () headers (\<lambda>_. Done))"
  by (auto simp: job_ok_def handleMessage_task_keeps handleMessage_task_within
      handleMessage_task_unfailing deliver_core_keeps deliver_core_within deliver_core_unfailing
      Publish_task_keeps Publish_task_within Publish_task_unfailing)

lemma raw_job_ok: "job_ok (RawJob, exec (\<lambda>w'. snd (PublishRaw E a k payload hs w')) Done)"
  by (auto simp: job_ok_def keeps_PublishRaw numeral_eq_Suc intro!: task_rules task_within)

lemma PublishRaw_outcomes:
  "p_publishFn (o_publisher a) = Some fn \<Longrightarrow>
   outcomes (snd (PublishRaw E a k payload hs w)) = outcomes w @ [Publication]"
  by (cases fn) (simp_all add: PublishRaw_def Let_def call_publishFn_eq)

lemma raw_job_pays:
  assumes "p_publishFn (o_publisher a) = Some fn"
  shows "pays outcomes [Publication] (exec (\<lambda>w'. snd (PublishRaw E a k payload hs w')) Done)"
proof -
  have "pays outcomes ([Publication] @ []) (exec (\<lambda>w'. snd (PublishRaw E a k payload hs w')) Done)"
    by (intro pays_exec PublishRaw_outcomes [OF assms]) simp
  then show ?thesis by simp
qed

lemma job_ok_step: "job_ok (l, Act f) \<Longrightarrow> f w = Some (t, w') \<Longrightarrow> job_ok (l, t)"
  by (auto simp: job_ok_def dest: guarantees_step unfailing_step within_step)

lemma spawn_ok:
  "csession_ok E (c, ph, js, w) \<Longrightarrow> job_ok (j, t) \<Longrightarrow> pays outcomes (promise j) t \<Longrightarrow>
   csession_ok E (c, ph, js @ [(j, t)], w)"
  by (simp add: csession_ok_def balanced_spawn)

lemma atomic_ok:
  "csession_ok E (c, ph, js, w) \<Longrightarrow> session_ok (recorded ph' c', w') \<Longrightarrow> phase_ok E ph' c' \<Longrightarrow>
   outcomes w' = outcomes w \<Longrightarrow> csession_ok E (c', ph', js, w')"
  by (auto simp: csession_ok_def intro: balanced_view)

lemma start_ok:
  assumes "start_step E ph c w = Some (ph', c', w')" and "csession_ok E (c, ph, js, w)"
  shows "csession_ok E (c', ph', js, w')"
  using start_step_ok [OF assms(1)] assms(2)
  by (intro atomic_ok [OF assms(2)]) (auto simp: csession_ok_def start_frame_outcomes)

lemma advance_ok:
  assumes "advance (js, w) (js', w')" and "csession_ok E (c, ph, js, w)"
  shows "csession_ok E (c, ph, js', w')"
proof -
  from assms(2) have js: "list_all job_ok js" and b: "balanced outcomes promise js w"
    and s: "session_ok (recorded ph c, w)" and ph: "phase_ok E ph c"
    by (simp_all add: csession_ok_def)
  have "list_all (\<lambda>(l, t). guarantees keeps t) js"
    using js by (auto simp: list_all_iff job_ok_def)
  then have k: "keeps w w'" by (rule advance_guarantee(1) [OF assms(1)])
  from keeps_session_ok [OF k s] ph
    advance_list_all [OF assms(1) js job_ok_step] balanced_advance [OF assms(1) b]
  show ?thesis by (simp add: csession_ok_def)
qed

lemma cstep_ok: "cstep E s s' \<Longrightarrow> csession_ok E s \<Longrightarrow> csession_ok E s'"
proof (induction rule: cstep.induct)
  case (starting ph fs c ph' c' js w)
  from starting(4) have "session_ok (c, w)"
    by (simp add: csession_ok_def recorded_not_running [OF starting(1)])
  with begin_start_ok [OF starting(3,2)] show ?case
    by (intro atomic_ok [OF starting(4)]) simp_all
next
  case (start ph c w ph' c' w' js)
  then show ?case by (rule start_ok)
next
  case (close c ph js w)
  then show ?case
    by (intro spawn_ok) (simp_all add: job_ok_def Close_task_rules)
next
  case (metrics c ph js w opts)
  then show ?case
    by (intro spawn_ok) (simp_all add: job_ok_def InitMetrics_task_rules)
next
  case (collect gs service w tp w' c ph js)
  then have "session_ok (recorded ph c, w')" "phase_ok E ph c"
    using CollectTopology_session_ok [OF collect(1,2)] by (simp_all add: csession_ok_def)
  then show ?case
    by (rule atomic_ok [OF collect(3) _ _ CollectTopology_outcomes [OF collect(1,2)]])
next
  case (application w w' c ph js)
  then have "session_ok (recorded ph c, w')" "phase_ok E ph c"
    using app_change_session_ok by (auto simp: csession_ok_def)
  moreover have "outcomes w' = outcomes w"
    using application(1) by (auto simp: app_change_def outcomes_def)
  ultimately show ?case by (rule atomic_ok [OF application(2)])
next
  case (deliver_js s cfg consumer w c ph js msg)
  then have "jsc_spanNameFn consumer \<noteq> None"
    by (auto simp: csession_ok_def session_ok_def callbacks_named_def)
  with deliver_js show ?case
    by (intro spawn_ok new_jobs_ok) (simp_all add: handleMessage_task_pays)
next
  case (deliver_core subject cb w c ph js msg)
  then have "jsc_spanNameFn (cb_consumer cb) \<noteq> None"
    by (auto simp: csession_ok_def session_ok_def callbacks_named_def)
  with deliver_core show ?case
    by (intro spawn_ok new_jobs_ok) (simp_all add: deliver_core_pays)
next
  case (publish w pid c ph js headers marshalled ctx k)
  then show ?case
    using Publish_task_pays [of headers "\<lambda>_. marshalled" "()"]
    by (intro spawn_ok new_jobs_ok) simp_all
next
  case (publish_raw w pid fn c ph js k payload hs)
  then show ?case
    by (intro spawn_ok raw_job_ok) (simp_all add: raw_job_pays NewOutboxRawPublisher_def)
next
  case (advance js w js' w' c ph)
  then show ?case by (rule advance_ok)
qed

lemma creachable_ok: "creachable E s \<Longrightarrow> csession_ok E s"
proof (induction rule: creachable.induct)
  case (init service url opts c w)
  then have "reachable E (c, w)" by (rule reachable.init)
  with init show ?case
    by (auto simp: csession_ok_def reachable_session_ok balanced_def owing_def fresh_world_def
        outcomes_def map_filter_simps)
next
  case (step s s')
  then show ?case using cstep_ok by blast
qed

text \<open>A \<open>Start\<close> that succeeds comes through a state in which all consumers are live and nothing but
  marking the connection as started is left.\<close>

lemma last_phase:
  "run_start E ph c w = Some (None, c', w') \<Longrightarrow> creachable E (c, ph, js, w) \<Longrightarrow> running ph \<Longrightarrow>
   \<exists>c1 w1. creachable E (c1, Ensuring [], js, w1) \<and> start_step E (Ensuring []) c1 w1 = Some (Returned None, c', w')"
proof (induction E ph c w rule: run_start.induct)
  case (1 E ph c w)
  then obtain ph1 c1 w1 where s: "start_step E ph c w = Some (ph1, c1, w1)"
    and rest: "run_start E ph1 c1 w1 = Some (None, c', w')"
    by (auto simp: run_start_step bind_eq_Some_conv)
  have r: "creachable E (c1, ph1, js, w1)"
    by (rule creachable.step [OF "1.prems"(2) cstep.start [OF s]])
  have ok: "phase_ok E ph c" using creachable_ok [OF "1.prems"(2)] by (simp add: csession_ok_def)
  show ?case
  proof (cases "running ph1")
    case True
    with "1.prems"(3) s rest r "1.IH" show ?thesis by (cases ph) auto
  next
    case False
    with rest have "ph1 = Returned None" "c1 = c'" "w1 = w'"
      by (cases ph1; simp add: run_start.simps [of _ Idle])+
    with s ok "1.prems"(2) have "ph = Ensuring []"
      by (cases "(E, ph, c, w)" rule: start_step.cases)
        (auto simp: bind_eq_Some_conv perform_def split: option.splits prod.splits sum.splits)
    with s \<open>ph1 = Returned None\<close> \<open>c1 = c'\<close> \<open>w1 = w'\<close> "1.prems"(2) show ?thesis by blast
  qed
qed

interpretation jobs: stable_pool keeps chans_open
  by unfold_locales (simp add: keeps_def chans_open_def)

lemma progress_creachable: "progress E n s s' \<Longrightarrow> creachable E s \<Longrightarrow> creachable E s'"
  by (induction rule: progress.induct) (auto intro: creachable.step cstep.advance cstep.start)

lemma progress_labels:
  "progress E n s s' \<Longrightarrow> map fst (fst (snd (snd s'))) = map fst (fst (snd (snd s)))"
  by (induction rule: progress.induct) (auto simp: advance_labels)

lemma jobs_budget: "list_all job_ok js \<Longrightarrow> budget (map (limit \<circ> fst) js) js"
  by (auto simp: budget_def list_all2_conv_all_nth list_all_length job_ok_def case_prod_unfold)

lemma progress_bounded:
  "progress E n s s' \<Longrightarrow> csession_ok E s \<Longrightarrow> budget ns (fst (snd (snd s))) \<Longrightarrow>
   n \<le> sum_list ns + steps_left (fst (snd s)) (fst s)"
proof (induction arbitrary: ns rule: progress.induct)
  case (job js w js' w' n c ph s)
  obtain ns' where "budget ns' js'" "sum_list ns = Suc (sum_list ns')"
    using budget_advance [OF job(1)] job.prems(2) by auto
  with job.IH [OF advance_ok [OF job(1) job.prems(1)], of ns'] show ?case by simp
next
  case (start ph c w ph' c' w' n js s)
  have "phase_ok E ph c" using start.prems(1) by (simp add: csession_ok_def)
  from start_step_fewer [OF start(1) this] start.IH [OF start_ok [OF start(1) start.prems(1)], of ns]
    start.prems(2) show ?case by simp
qed simp

lemma start_frame_open: "start_frame w w' \<Longrightarrow> chans_open w \<Longrightarrow> chans_open w'"
  by (simp add: start_frame_def same_app_def chans_open_def)

lemma start_drains:
  assumes "csession_ok E (c, ph, js, w)" and "calm_phase E ph" and "chans_open w"
  shows "\<exists>n c' ph' w'. progress E n (c, ph, js, w) (c', ph', js, w') \<and> \<not> running ph' \<and> chans_open w'"
  using assms
proof (induction "steps_left ph c" arbitrary: c ph w rule: less_induct)
  case less
  show ?case
  proof (cases "running ph")
    case False
    with less.prems show ?thesis by (blast intro: progress.none)
  next
    case True
    from less.prems(1) have ok: "phase_ok E ph c" "session_ok (recorded ph c, w)"
      by (simp_all add: csession_ok_def)
    from start_step_enabled [OF ok(1) less.prems(2) True] obtain ph1 c1 w1 where
      s: "start_step E ph c w = Some (ph1, c1, w1)" by blast
    have "chans_open w1" using start_step_ok [OF s ok] less.prems(3) start_frame_open by blast
    from less.hyps [OF start_step_fewer [OF s ok(1)] start_ok [OF s less.prems(1)]
        calm_phase_step [OF s ok(1) less.prems(2)] this]
    show ?thesis by (blast intro: progress.start [OF s])
  qed
qed

lemma advances_progress:
  "advances n s s' \<Longrightarrow> progress E n (c, ph, fst s, snd s) (c, ph, fst s', snd s')"
  by (induction rule: advances.induct) (auto intro: progress.intros)

lemma progress_trans: "progress E m s t \<Longrightarrow> progress E n t u \<Longrightarrow> progress E (m + n) s u"
  by (induction rule: progress.induct) (auto intro: progress.intros)

lemma jobs_drain:
  assumes "creachable E (c, ph, js, w)" and "calm_phase E ph" and "chans_open w"
    and "\<forall>(j, t) \<in> set js. calm_job j"
  shows "\<exists>n c' ph' js' w'. progress E n (c, ph, js, w) (c', ph', js', w') \<and> \<not> running ph' \<and>
    all_done js' \<and> creachable E (c', ph', js', w')"
proof -
  note s = creachable_ok [OF assms(1)]
  from start_drains [OF s assms(2,3)] obtain m c' ph' w1 where
    m: "progress E m (c, ph, js, w) (c', ph', js, w1)" "\<not> running ph'" "chans_open w1" by blast
  have ok: "list_all job_ok js" using s by (simp add: csession_ok_def)
  then have "pool_ok keeps chans_open js"
    using assms(4) by (fastforce simp: pool_ok_def list_all_iff job_ok_def)
  from jobs.drains [OF jobs_budget [OF ok] this m(3)] obtain n js' w' where
    run: "advances n (js, w1) (js', w')" "all_done js'" by blast
  have p: "progress E (m + n) (c, ph, js, w) (c', ph', js', w')"
    using progress_trans [OF m(1)] advances_progress [OF run(1)] by simp
  with m(2) run(2) progress_creachable [OF p assms(1)] show ?thesis by blast
qed

section \<open>Properties\<close>

text \<open>
  The fine-grained model agrees with the sequential one: a delivery, a Core NATS callback, a
  publication, closing and initialising the metrics, when they run without interference, are
  \<open>handleMessage\<close>, the callback, \<open>Publish\<close>, \<open>Close\<close> and \<open>InitMetrics\<close>; and \<open>Start\<close> is its phases one
  after the other, on every path, with the same result, the same connection and the same calls.
\<close>

lemma tasks_refine_operations:
  "run (handleMessage_task E c msg) w = handleMessage E c msg w \<and>
   run (deliver_core_task E cb msg') w = deliver_core E cb msg' w \<and>
   run (Publish_task E p ctx k marshal m headers (\<lambda>_. Done)) w
     = map_option snd (Publish E p ctx k marshal m headers w) \<and>
   run (Close_task E d (\<lambda>_. Done)) w = Some (snd (Close E d w)) \<and>
   run (InitMetrics_task E opts (\<lambda>_. Done)) w = Some (snd (InitMetrics E opts w)) \<and>
   (case begin_start fs d of (ph, d') \<Rightarrow> run_start E ph d' v) = Start E fs d v"
  unfolding Start_in_phases
  by (simp add: run_handleMessage_task run_deliver_core_task run_Publish_task run_Close_task
      run_InitMetrics_task case_prod_unfold)
    (cases "Publish E p ctx k marshal m headers w"; auto)

text \<open>
  C5: Exactly once, under every interleaving. In every reachable state of a concurrent session, what
  has been settled and published lies between what the finished goroutines were started for and what
  all goroutines were started for: a finished delivery has settled its message, no message is settled
  more often than it was delivered, and likewise for publishing. So when all goroutines have finished,
  the messages settled are exactly those delivered, each as often as it was. This includes messages
  that arrive while \<open>Start\<close> is still running.
\<close>

theorem concurrent_exactly_once:
  assumes "creachable E (c, ph, js, w)"
  shows "mset (concat (map (promise \<circ> fst) (filter (\<lambda>(j, t). t = Done) js))) \<subseteq># mset (outcomes w) \<and>
    mset (outcomes w) \<subseteq># mset (concat (map (promise \<circ> fst) js)) \<and>
    (all_done js \<longrightarrow> mset (outcomes w) = mset (concat (map (promise \<circ> fst) js)))"
proof -
  have b: "balanced outcomes promise js w"
    using creachable_ok [OF assms] by (simp add: csession_ok_def)
  note bounds = balanced_bounds [OF b]
  have "filter (\<lambda>(j, t). t = Done) js = js" if "all_done js"
    using that by (auto simp: all_done_def list_all_iff filter_id_conv)
  with bounds show ?thesis
    by (auto intro: subset_mset.antisym)
qed

text \<open>
  C6: The invariant of a session survives concurrency: between any two statements of message
  processing and publishing and in every phase of \<open>Start\<close>, the connection has a handle for every
  JetStream callback, in the order of their registration, or lacks only that of the callback just
  registered, which \<open>Start\<close> is about to record; a started connection is connected with nothing
  pending, every metric update is well labelled, and no channel holds more than its capacity. While no
  \<open>Start\<close> is running the connection also has the subscription of every Core NATS callback. A \<open>Start\<close>
  that returned no error has started the connection; while \<open>Start\<close> is running the connection does
  not count as started, so that a \<open>Close\<close> in the meantime does nothing.
\<close>

theorem concurrent_invariant:
  assumes "creachable E (c, ph, js, w)"
  shows "(case ph of Recording h gs \<Rightarrow> conn_consumers c @ [h] | _ \<Rightarrow> conn_consumers c)
      = map (\<lambda>i. \<lparr>jh_ctx = Some i\<rparr>) [0..<length (js_callbacks w)] \<and>
    (\<not> running ph \<longrightarrow> conn_subscriptions c = [0..<length (core_callbacks w)]) \<and>
    (conn_started c \<longrightarrow> conn_nc c \<and> conn_js c \<and> conn_pendingJSConsumers c = []) \<and>
    (ph = Returned None \<longrightarrow> conn_started c) \<and>
    (running ph \<longrightarrow> \<not> conn_started c \<and> Close E c w = (None, w)) \<and>
    list_all labels_match (trace w) \<and> channels_ok w"
proof -
  from creachable_ok [OF assms] have s: "session_ok (recorded ph c, w)" and ph: "phase_ok E ph c"
    by (simp_all add: csession_ok_def)
  moreover have "conn_consumers (recorded ph c)
      = (case ph of Recording h gs \<Rightarrow> conn_consumers c @ [h] | _ \<Rightarrow> conn_consumers c)"
    by (cases ph) (simp_all add: record_handle_def)
  moreover have "running ph \<longrightarrow> \<not> conn_started c \<and> Close E c w = (None, w)"
    using running_not_started [OF ph] by (simp add: Close_def)
  moreover have "ph = Returned None \<longrightarrow> conn_started c" using ph by auto
  ultimately show ?thesis by (simp add: session_ok_def accounted_def)
qed

text \<open>
  C12: No goroutine blocks, panics or runs on. In every reachable state of a concurrent session whose
  channels are open, whose handlers do not panic and whose \<open>Start\<close>, if it is running, was not given a
  \<open>nil\<close> logger, every goroutine that has not finished can perform its next statement, and a running
  \<open>Start\<close> its next step. Under every schedule the goroutines perform at most 18 statements each, a
  \<open>Close\<close> one for each consumer and one more, and \<open>Start\<close> at most five steps for each setup function it
  was given, four for each consumer declared before, and five more; and so they can all run to the
  end, which leaves a reachable state.
\<close>

theorem concurrent_drains:
  assumes "creachable E (c, ph, js, w)" and "calm_phase E ph" and "chans_open w"
    and "\<forall>(j, t) \<in> set js. calm_job j"
  shows "(\<forall>(j, t) \<in> set js. t = Done \<or> (\<exists>f t' w'. t = Act f \<and> f w = Some (t', w'))) \<and>
    (running ph \<longrightarrow> (\<exists>ph' c' w'. start_step E ph c w = Some (ph', c', w'))) \<and>
    (\<forall>n s'. progress E n (c, ph, js, w) s' \<longrightarrow> n \<le> sum_list (map (limit \<circ> fst) js) + steps_left ph c) \<and>
    (\<exists>n c' ph' js' w'. progress E n (c, ph, js, w) (c', ph', js', w') \<and> \<not> running ph' \<and>
       all_done js' \<and> creachable E (c', ph', js', w'))"
proof -
  note s = creachable_ok [OF assms(1)]
  then have ok: "list_all job_ok js" and ph: "phase_ok E ph c" by (simp_all add: csession_ok_def)
  then have "\<forall>(j, t) \<in> set js. unfailing chans_open t"
    using assms(4) by (fastforce simp: list_all_iff job_ok_def)
  then have "\<forall>(j, t) \<in> set js. t = Done \<or> (\<exists>f t' w'. t = Act f \<and> f w = Some (t', w'))"
    using unfailing_enabled [where P = chans_open, OF _ assms(3)] by fastforce
  moreover have "running ph \<longrightarrow> (\<exists>ph' c' w'. start_step E ph c w = Some (ph', c', w'))"
    using start_step_enabled [OF ph assms(2)] by blast
  moreover have "\<forall>n s'. progress E n (c, ph, js, w) s' \<longrightarrow> n \<le> sum_list (map (limit \<circ> fst) js) + steps_left ph c"
    using progress_bounded [OF _ s] jobs_budget [OF ok] by simp
  ultimately show ?thesis using jobs_drain [OF assms] by (intro conjI)
qed

text \<open>
  Two deliveries to the same consumer and a publication, while \<open>Start\<close> is still running.
\<close>

definition demo_jobs :: "(unit, nat) jsConsumer \<Rightarrow> (unit, nat) job list" where
  "demo_jobs consumer = [JsJob consumer (demo_js_msg 7 ''x''), JsJob consumer (demo_js_msg 8 ''y''),
     PublishJob [] (Inr ''{}'')]"

lemma demo_csession:
  obtains c js w consumer where "creachable demo_ext (c, Ensuring [], js, w :: (unit, nat) nworld)"
    and "chans_open w" and "map fst js = demo_jobs consumer" and "\<forall>(j, t) \<in> set js. calm_job j"
proof -
  obtain c' w' s cfg consumer where
    run: "Start demo_ext demo_setups demo_conn demo_nworld
      = Some (None, c' :: (unit, nat) connection, w')"
    and cb': "(s, cfg, consumer) \<in> set (js_callbacks w')"
    and h: "\<forall>h \<in> snd ` set (jsc_handlers consumer). total_handler h"
    and op: "\<And>i. \<not> ch_closed (nchans w' i)" "\<And>i. \<not> ch_closed (echans w' i)"
    and p': "p_publishFn (pubs w' 0) = Some JsPublish"
    by (rule demo_session) blast
  obtain c1 where b: "begin_start demo_setups demo_conn = (Connecting demo_setups, c1)"
    by (simp add: begin_start_def newConnection_def zero_connection_def)
  have r1: "creachable demo_ext (c1, Connecting demo_setups, [], demo_nworld)"
    by (rule creachable.step [OF creachable.init [OF demo_NewConnection demo_fresh]
          cstep.starting [OF _ demo_setups_safe b]]) simp
  from run b last_phase [OF _ r1] obtain c w where r: "creachable demo_ext (c, Ensuring [], [], w)"
    and w': "w' = log_at LevelInfo ''connection started'' w" by (auto simp: Start_in_phases)
  from cb' p' have cb: "(s, cfg, consumer) \<in> set (js_callbacks w)"
    and p: "p_publishFn (pubs w 0) = Some JsPublish" by (simp_all add: w')
  from creachable.step [OF creachable.step [OF creachable.step [OF r
        cstep.deliver_js [OF cb, of _ _ _ _ "demo_js_msg 7 ''x''"]]
        cstep.deliver_js [OF cb, of _ _ _ _ "demo_js_msg 8 ''y''"]]
        cstep.publish [of w 0 _ _ _ _ "[]" "Inr ''{}''"]] p
  obtain js where "creachable demo_ext (c, Ensuring [], js, w)" "map fst js = demo_jobs consumer"
    by (fastforce simp: demo_jobs_def)
  moreover from this(2) h have "\<forall>(j, t) \<in> set js. calm_job j"
    by (auto simp: demo_jobs_def map_eq_Cons_conv)
  moreover have "chans_open w" using op by (simp add: chans_open_def w')
  ultimately show thesis using that by blast
qed

theorem concurrent_exactly_once_witness:
  "\<exists>c ph js (w :: (unit, nat) nworld). creachable demo_ext (c, ph, js, w) \<and> all_done js \<and>
     mset (outcomes w) = {#Settlement 7, Settlement 8, Publication#}"
proof -
  obtain c js consumer and w :: "(unit, nat) nworld" where
    r: "creachable demo_ext (c, Ensuring [], js, w)" "chans_open w" "\<forall>(j, t) \<in> set js. calm_job j"
    and l: "map fst js = demo_jobs consumer" by (rule demo_csession) blast
  from jobs_drain [OF r(1) _ r(2,3)] obtain n c' ph' js' w' where
    d: "progress demo_ext n (c, Ensuring [], js, w) (c', ph', js', w')" "all_done js'"
    "creachable demo_ext (c', ph', js', w')" by auto
  have "map (promise \<circ> fst) js' = map promise (demo_jobs consumer)"
    using progress_labels [OF d(1)] l by (metis fst_conv map_map snd_conv)
  then have "mset (outcomes w') = {#Settlement 7, Settlement 8, Publication#}"
    using concurrent_exactly_once [OF d(3)] d(2)
    by (simp add: demo_jobs_def demo_js_msg_def publish_promise_def)
  with d show ?thesis by blast
qed

theorem concurrent_invariant_witness:
  "\<exists>c js (w :: (unit, nat) nworld). creachable demo_ext (c, Ensuring [], js, w) \<and> length js = 3 \<and>
     \<not> conn_started c \<and> Close demo_ext c w = (None, w) \<and> list_all labels_match (trace w)"
proof -
  obtain c js consumer and w :: "(unit, nat) nworld" where
    r: "creachable demo_ext (c, Ensuring [], js, w)" and l: "map fst js = demo_jobs consumer"
    by (rule demo_csession) blast
  have "length js = 3" using arg_cong [OF l, of length] by (simp add: demo_jobs_def)
  moreover have "running (Ensuring [] :: (unit, nat) phase)" by simp
  ultimately show ?thesis using r concurrent_invariant [OF r] by blast
qed

theorem concurrent_drains_witness:
  "\<exists>c js (w :: (unit, nat) nworld) n c' ph' js' w'.
     creachable demo_ext (c, Ensuring [], js, w) \<and> length js = 3 \<and>
     progress demo_ext n (c, Ensuring [], js, w) (c', ph', js', w') \<and> n \<le> 56 \<and> \<not> running ph' \<and>
     all_done js'"
proof -
  obtain c js consumer and w :: "(unit, nat) nworld" where
    r: "creachable demo_ext (c, Ensuring [], js, w)" "chans_open w" "\<forall>(j, t) \<in> set js. calm_job j"
    and l: "map fst js = demo_jobs consumer" by (rule demo_csession) blast
  have "length js = 3" using arg_cong [OF l, of length] by (simp add: demo_jobs_def)
  moreover have "sum_list (map (limit \<circ> fst) js) = 54"
    using l by (simp flip: map_map) (simp add: demo_jobs_def)
  ultimately show ?thesis using concurrent_drains [OF r(1) _ r(2,3)] r(1) by fastforce
qed

end
