(* ===== verification/Spec2Isabelle.thy ===== *)
theory Spec2Isabelle
  imports Session_Spec Progress Tck_Adapter Wiring Concurrency
begin

text \<open>
  Verification of \<open>go-messaging-nats\<close>, the NATS transport of a messaging specification: a Go package
  with which a service declares publishers and consumers as setup functions, starts a connection
  with them, publishes JSON events and requests, and handles the messages that NATS delivers.

  \<^bold>\<open>The parts of the program and where they are modelled.\<close>
  \<^item> \<open>Go_Prelude\<close>: what the package uses of the Go language and library: errors and \<open>errors.Is\<close>,
    maps with an open iteration order, channels with non-blocking sends, durations.
  \<^item> \<open>Nats_Env\<close>: the data exchanged with other packages, the calls made on them, and the parameters
    that stand for them (record \<open>ext\<close>). The world is a trace of calls; the answer to a call is an
    arbitrary function of the trace before it.
  \<^item> \<open>Naming\<close> (\<open>naming.go\<close>, the first lines of \<open>handleMessage\<close>): names of streams, subjects and
    consumers, and the routing key read back from a subject.
  \<^item> \<open>Headers\<close> (\<open>headers.go\<close>): validation of user headers and the conversion of headers.
  \<^item> \<open>Metrics\<close> (\<open>metrics.go\<close>): collectors, counting, registration.
  \<^item> \<open>Notifications\<close> (\<open>notifications.go\<close>): outcome notifications on channels.
  \<^item> \<open>Tracing\<close> (\<open>tracing.go\<close>): span attributes and the propagation of trace contexts.
  \<^item> \<open>Go_Json\<close>: how \<open>json.Marshal\<close> writes the error object of a failed request.
  \<^item> \<open>Handlers\<close> (\<open>handler.go\<close>, \<open>routingkey_handlers.go\<close>, \<open>consumable_event.go\<close>,
    \<open>TypeMappingHandler\<close>): typed handlers, their wrapping, and the table from routing key patterns
    to handlers.
  \<^item> \<open>Consumer\<close> (\<open>consumer.go\<close>): consumer options, and the processing of one message
    (\<open>handleMessage\<close>, \<open>handleDelivery\<close>, \<open>handleCoreMessage\<close>).
  \<^item> \<open>Publisher\<close> (\<open>publisher.go\<close>, \<open>outbox_adapter.go\<close>): \<open>Publish\<close> with its CloudEvents headers, and
    \<open>PublishRaw\<close>.
  \<^item> \<open>Connection\<close> (\<open>connection.go\<close>, \<open>setup.go\<close>): the state of a connection, \<open>ensureStream\<close>,
    \<open>Close\<close>, and the setup functions that configure it.
  \<^item> \<open>Setups\<close> (\<open>setup_consumer.go\<close>, \<open>setup_publisher.go\<close>, \<open>request_response.go\<close>): the setup
    functions that declare endpoints, the grouping of JetStream consumers, request handlers.
  \<^item> \<open>Lifecycle\<close> (\<open>Start\<close> of \<open>connection.go\<close>, \<open>topology_export.go\<close>): starting and collecting.
  \<^item> \<open>Progress\<close>: when \<open>Start\<close> returns and when it succeeds, and what a failed attempt leaves.
  \<^item> \<open>Session\<close>: a connection and its world as a labelled state machine (\<open>step\<close>, \<open>session_run\<close>): starting,
    collecting a topology, deliveries, publishing, closing, and the application itself.
  \<^item> \<open>Session_Spec\<close>: an abstract client (\<open>client_step\<close>) that a session implements, label by label.
  \<^item> \<open>Wiring\<close>: the publishers of a session, as made, configured by a collecting run, or wired.
  \<^item> \<open>Startup\<close>: \<open>Start\<close> in phases, one call, setup function or recorded handle at a time (\<open>start_step\<close>,
    \<open>run_start\<close>).
  \<^item> \<open>Tasks\<close>, \<open>Concurrency\<close>: message processing, publishing, \<open>Close\<close> and \<open>InitMetrics\<close> statement by
    statement, as tasks that are interleaved with each other and with the phases of \<open>Start\<close>.
  \<^item> \<open>Tck_Adapter\<close> (\<open>cmd/tck-adapter/main.go\<close>): the conformance adapter, which starts a service from
    a list of intents, publishes for it and records what it receives.

  \<^bold>\<open>How the model corresponds to the code.\<close> A Go function is a definition of the same name; a struct
  is a record whose fields have the names of the struct's, with a prefix. State is passed: an
  operation takes the parameters \<open>E\<close>, the connection where it has one, and the world, and returns
  them changed. A panic is \<open>None\<close>; an error is a value. Objects that are shared by address
  (publishers, channels, the callbacks given to the NATS client) live in the world under a number.
  User code (handlers, span name functions, marshallers, metric label mappers) is a function
  argument; handlers work on an application state of arbitrary type and may fail or panic. What a
  property needs of a parameter is a named hypothesis (\<open>header_laws\<close>, \<open>subject_law\<close>, \<open>wildcard_law\<close>,
  \<open>ce_names_law\<close>, \<open>inject_law\<close>), each shown to hold for a concrete instance (\<open>demo_ext\<close>).

  \<^bold>\<open>What the lemmas show.\<close>
  \<^item> Interfaces are locales with an interpretation on the model: \<open>keyed_store\<close> (Go maps, and headers),
    \<open>dispatch_table\<close> (the handler table), \<open>logs_once\<close> (steps that log one entry per message),
    \<open>lawful_setups\<close> and its extensions \<open>safe_setups\<close>, \<open>live_setups\<close> and \<open>wiring_setups\<close> (the
    contract of setup functions on which \<open>Start\<close>, \<open>CollectTopology\<close>, the state machine, its
    progress and its publishers rely), \<open>stable_pool\<close> (what lets a pool of tasks run to the end).
  \<^item> Abstract descriptions with a proof that the code implements them: \<open>decide\<close> and
    \<open>outcome_counter\<close> for message processing, \<open>expected_header\<close> for the headers on the wire,
    \<open>groups_of\<close> for the grouping of consumers, \<open>wanted_stream\<close> for the stream configuration,
    \<open>client_step\<close> for sessions as a whole (every step of a session is the step of the client with the
    same label, so that a run settles and publishes exactly what its labels ask for), \<open>key_matches\<close> for
    the documented wildcards, \<open>asked_endpoint\<close> for the intents of the adapter.
  \<^item> Message processing: every message is settled exactly once, as the handler's result demands;
    runs settle in order and counters balance; requests are answered exactly once; every result is
    announced on the channel for it, without blocking.
  \<^item> Publishing: the outcome on every path, the headers on the wire, the outbox adapter.
  \<^item> Starting: \<open>Start\<close> always returns (a \<open>nil\<close> logger apart), succeeds at most once and whenever the dry
    run and the broker allow it, failure closes what was opened, a retry keeps exactly the declarations
    of the setup functions that had completed, one JetStream consumer per group, the collected topology
    is the started one, collecting is silent.
  \<^item> Sessions: a publisher that can publish does not panic and its caller cannot forge its service, the
    filters of consumers are built from their routing keys, closing stops everything.
  \<^item> Concurrency: a task alone is the operation, and the phases of \<open>Start\<close> in a row are \<open>Start\<close>;
    interleaved at every statement, tasks and phases keep the invariant of the session, settle and
    publish exactly what they were started for, never block, and finish within a bound.
  \<^item> The adapter: a started service has the topology its intents ask for, up to the queue suffix of
    custom streams, which it drops; it publishes through exactly the keys it reports and records every
    message it handles.
  \<^item> Below: a published event arrives at the handler as it was sent, and a request is answered by the
    handler of the service it is addressed to.

  \<^bold>\<open>Bounds.\<close> No definition uses fuel: every loop of the package ranges over a finite list or map,
  and all functions are total (\<open>run_start\<close>, which is not structural, by a lexicographic measure). The
  18 statements of a task are the longest path through a delivery, found by counting; \<open>Close\<close> has one
  for each consumer and one more; the steps of \<open>Start\<close> are counted by \<open>steps_left\<close>. Integers are
  unbounded; the package does no arithmetic on machine integers except differences of clock readings.
  The order in which Go ranges over a map is given
  by an arbitrary ranking of the keys, one per loop, so that theorems hold for every order.

  \<^bold>\<open>What is not modelled.\<close> The attributes of log records and the destination of a logger, nor the
  logger that a consumer keeps. Concurrency inside a setup function, which is one step of \<open>Start\<close> or of
  a collecting run: a publisher half wired or a subscription not yet recorded while a setup function
  runs is not visible, and no property speaks of it. Concurrency inside a handler, which acts on the
  application state at one moment between its invocation and its result (the routing key mapper is read
  without tearing, as \<open>atomic.Value\<close> guarantees). Contexts beyond their propagation; \<open>connectFn\<close>, which
  only tests replace; \<open>nil\<close> setup functions, publishers and handlers, and \<open>nil\<close> functions given as
  options, among them a \<open>nil\<close> routing key mapper, which panics at its first use; metric label values
  that are not valid UTF-8, for which Prometheus panics. \<open>main\<close> of the adapter, which reads an
  environment variable and hands over to the serving loop of another package. The NATS server,
  JetStream and the specification package are parameters.
\<close>

section \<open>From a publisher to a handler\<close>

text \<open>What a handler sees of a published message, given the headers on the wire.\<close>

lemma received_event:
  assumes "handleMessage E c jm v = Some v'" and "routing_key_of_subject (jm_Subject jm) = k"
    and "built_header E (jm_Headers jm)" and "\<forall>key. header_get E (jm_Headers jm) key = H key"
    and "jm_Data jm = bytes"
  shows "case rkh_get E (map_rank E (trace (eventReceived (jsc_name c) k v)) ''get'') (jsc_handlers c) k of
      None \<Rightarrow> settlements (trace v') = settlements (trace v) @ [(jm_Id jm, Terminated)]
    | Some h \<Rightarrow> \<exists>hctx ev result. h hctx ev (app v) = Some (result, app v') \<and>
        invocations (trace v') = invocations (trace v) @ [ev] \<and>
        settlements (trace v') = settlements (trace v) @ [(jm_Id jm, decide result)] \<and>
        ue_Payload ev = bytes \<and> di_Key (ue_DeliveryInfo ev) = k \<and>
        di_Source (ue_DeliveryInfo ev) = jsc_stream c \<and>
        (\<forall>key. any_header (di_Headers (ue_DeliveryInfo ev)) key = H key)"
  using assms(1)
proof (cases rule: handleMessage_views)
  case Unhandled
  then show ?thesis by (simp add: assms(2))
next
  case (Handled h hctx result)
  let ?info = "js_delivery_info E c jm k
    (map_rank E (trace (eventReceived (jsc_name c) k v)) ''fromNATSHeaders'')"
  let ?ev = "event_of E ?info (jm_Data jm)"
  have "ue_Payload ?ev = bytes" "di_Key (ue_DeliveryInfo ?ev) = k"
    "di_Source (ue_DeliveryInfo ?ev) = jsc_stream c"
    "\<forall>key. any_header (di_Headers (ue_DeliveryInfo ?ev)) key = H key"
    using assms(4,5) by (simp_all add: event_of_def js_delivery_info_def any_header_received [OF assms(3)])
  with Handled show ?thesis
    unfolding assms(2) by (simp only: option.case) blast
qed

text \<open>
  C9: A published event arrives as it was sent. Take a publisher wired to a stream whose name has no
  dot, valid headers and a message that marshals: \<open>Publish\<close> publishes one message. Whenever NATS
  hands that message, with its subject, headers and data, to any JetStream consumer and processing
  does not panic, then the routing key under which handlers are looked up is the one given to
  \<open>Publish\<close>, and if a handler is registered for it, the event it is called with carries the
  marshalled data, that routing key, the consumer's stream as source, and under every header key
  the value that \<open>expected_header\<close> describes; the message is then settled by the handler's result.
\<close>

theorem published_event_handled:
  fixes w :: "('x, 'w) world_scheme" and v :: "('x, 'app, 'v) cworld_scheme"
  assumes "header_laws E" and "inject_law E" and "ce_names_law E" and "subject_law E"
    and "p_publishFn p = Some fn" and "p_subjectFn p = None" and "CHR ''.'' \<notin> set (p_stream p)"
    and "\<forall>h \<in> set headers. validateKey h = None" and "marshal msg = Inr bytes"
  shows "\<exists>r w' m ctx' t. Publish E p ctx k marshal msg headers w = Some (r, w') \<and>
    publications (trace w') = publications (trace w) @ [(m, publish_timeout fn)] \<and>
    (jm_Subject jm = msg_Subject m \<and> jm_Headers jm = msg_Header m \<and> jm_Data jm = msg_Data m \<and>
     handleMessage E c jm v = Some v' \<longrightarrow>
     (case rkh_get E (map_rank E (trace (eventReceived (jsc_name c) k v)) ''get'') (jsc_handlers c) k of
        None \<Rightarrow> settlements (trace v') = settlements (trace v) @ [(jm_Id jm, Terminated)]
      | Some h \<Rightarrow> \<exists>hctx ev result. h hctx ev (app v) = Some (result, app v') \<and>
          invocations (trace v') = invocations (trace v) @ [ev] \<and>
          settlements (trace v') = settlements (trace v) @ [(jm_Id jm, decide result)] \<and>
          ue_Payload ev = bytes \<and> di_Key (ue_DeliveryInfo ev) = k \<and>
          di_Source (ue_DeliveryInfo ev) = jsc_stream c \<and>
          (\<forall>key. any_header (di_Headers (ue_DeliveryInfo ev)) key
             = expected_header E p k headers (now_rfc3339 E t) (uuid_New E t)
                 (propagator_Inject E (propagatorOrGlobal E (p_propagator p)) ctx') key)))"
proof -
  from Publish_message [OF assms(1-3,5,8), where marshal = marshal and msg = msg, OF assms(9),
      of ctx k w]
  obtain r w' m ctx' t where run: "Publish E p ctx k marshal msg headers w = Some (r, w')"
    "publications (trace w') = publications (trace w) @ [(m, publish_timeout fn)]"
    and m: "msg_Subject m = publish_subject E p k" "msg_Data m = bytes"
      "built_header E (msg_Header m)"
      "\<forall>key. header_get E (msg_Header m) key
         = expected_header E p k headers (now_rfc3339 E t) (uuid_New E t)
             (propagator_Inject E (propagatorOrGlobal E (p_propagator p)) ctx') key"
    by blast
  have key: "routing_key_of_subject (msg_Subject m) = k"
    using assms(4,6,7) routing_key_of_subject_append [of "p_stream p" k]
    by (simp add: m(1) publish_subject_def subjectName_def subject_law_def)
  show ?thesis
    by (intro exI [of _ r] exI [of _ w'] exI [of _ m] exI [of _ ctx'] exI [of _ t] conjI run impI
        received_event) (use key m in simp_all)
qed

theorem published_event_handled_witness:
  "\<exists>r w' m v'. Publish demo_ext demo_publisher () ''Order.Created'' Inr ''x'' [] demo_cworld = Some (r, w') \<and>
     publications (trace w') = [(m, None)] \<and>
     handleMessage demo_ext demo_consumer
       \<lparr>jm_Id = 3, jm_Subject = msg_Subject m, jm_Headers = msg_Header m, jm_Data = msg_Data m\<rparr>
       demo_cworld = Some v' \<and> settlements (trace v') = [(3, Acked)]"
proof -
  have p: "p_publishFn demo_publisher = Some JsPublish" "p_subjectFn demo_publisher = None"
    "CHR ''.'' \<notin> set (p_stream demo_publisher)" "\<forall>h \<in> set []. validateKey h = None"
    by (simp_all add: demo_publisher_def publisher_setup_def NewPublisher_def)
  have m: "(Inr :: string \<Rightarrow> go_error + string) ''x'' = Inr ''x''" by (rule refl)
  note handled = published_event_handled [OF demo_header_laws demo_inject_law demo_ce_names_law
      demo_subject_law p, where marshal = "Inr :: string \<Rightarrow> go_error + string", OF m]
  obtain r w' m where pub:
    "Publish demo_ext demo_publisher () ''Order.Created'' Inr ''x'' [] demo_cworld = Some (r, w')"
    "publications (trace w') = [(m, None)]"
  proof -
    from Publish_message [OF demo_header_laws demo_inject_law demo_ce_names_law p(1,4),
        where marshal = "Inr :: string \<Rightarrow> go_error + string", OF m, of "()" "''Order.Created''" demo_cworld]
    obtain r w' m where
      "Publish demo_ext demo_publisher () ''Order.Created'' Inr ''x'' [] demo_cworld = Some (r, w')"
      "publications (trace w') = publications (trace demo_cworld) @ [(m, publish_timeout JsPublish)]"
      by blast
    with that show thesis by (simp add: demo_cworld_def)
  qed
  let ?jm = "\<lparr>jm_Id = 3, jm_Subject = msg_Subject m, jm_Headers = msg_Header m, jm_Data = msg_Data m\<rparr>"
  obtain v' where v': "handleMessage demo_ext demo_consumer ?jm demo_cworld = Some v'"
    using handleMessage_defined [OF demo_consumer_ok] by blast
  have rk: "rkh_get demo_ext rank (jsc_handlers demo_consumer) ''Order.Created''
      = Some (snd (hd (jsc_handlers demo_consumer)))" for rank
    by (simp add: rkh_get_def demo_consumer_def demo_ext_def)
  have trace: "publications (trace demo_cworld) = []" "settlements (trace demo_cworld) = []"
    by (simp_all add: demo_cworld_def)
  from handled [of "()" "''Order.Created''" demo_cworld ?jm demo_consumer demo_cworld v'] pub v'
  have "\<exists>hctx ev result. snd (hd (jsc_handlers demo_consumer)) hctx ev (app demo_cworld)
        = Some (result, app v') \<and> ue_Payload ev = ''x'' \<and>
      settlements (trace v') = [(3, decide result)]"
    by (auto simp: rk trace)
  moreover have "snd (hd (jsc_handlers demo_consumer)) hctx ev s = Some (None, s + 1)"
    if "ue_Payload ev = ''x''" for hctx ev s
    using that by (simp add: demo_consumer_def)
  ultimately have "settlements (trace v') = [(3, Acked)]"
    by (auto simp: decide_def)
  with pub v' show ?thesis by blast
qed

section \<open>From a request to its answer\<close>

lemma Publish_sends:
  assumes "p_publishFn p = Some fn" and "\<forall>h \<in> set headers. validateKey h = None"
    and "marshal msg = Inr bytes"
  shows "\<exists>r w' m. Publish E p ctx k marshal msg headers w = Some (r, w') \<and>
    publications (trace w') = publications (trace w) @ [(m, publish_timeout fn)] \<and>
    msg_Subject m = publish_subject E p k \<and> msg_Data m = bytes"
proof -
  have "List.find (\<lambda>h. validateKey h \<noteq> None) headers = None"
    using assms(2) by (simp add: find_None_iff)
  note valid = Publish_valid [OF this, of marshal msg, OF assms(3)]
  from publishMessage_wired [OF assms(1), of E ctx k bytes "given_headers E p headers" w]
  show ?thesis unfolding valid by (auto simp: Let_def)
qed

lemma requestResponseWrapper_total:
  "(\<And>ctx ev s. handler ctx ev s \<noteq> None) \<Longrightarrow> total_handler (requestResponseWrapper E T marshal handler)"
  by (simp add: total_handler_def requestResponseWrapper_eq split: sum.split) metis

text \<open>
  C10: A request is answered by the service it is addressed to. Let one service wire a publisher with
  \<open>ServicePublisher\<close> to a target, and let the target register a handler for a routing key with
  \<open>RequestResponseHandler\<close>. Publishing under that key sends one request, with the configured
  timeout (30 seconds where none is set), on the subject of the registered callback. Whenever NATS
  hands that request with a reply subject to the callback, the callback returns: the handler is
  called with the decoded payload and the routing key, and exactly one reply is sent, to the reply
  subject, which is the marshalled response or the JSON object of the error. Handlers registered
  with \<open>ServiceRequestConsumer\<close> subscribe to the same subject.
\<close>

theorem request_answered:
  fixes u :: "('x, 'app, 'u) cworld_scheme"
  assumes "\<not> conn_collectMode c" and "\<not> conn_collectMode d" and "conn_serviceName d = target"
    and "conn_spanNameFn d \<noteq> None"
    and "RequestResponseHandler E T resp_marshal k handler d v = Some (None, d', v')"
    and "\<And>ctx ev s. handler ctx ev s \<noteq> None"
    and "\<forall>h \<in> set headers. validateKey h = None" and "marshal msg = Inr bytes"
    and "ty_Unmarshal T bytes = Inr x" and "reply \<noteq> ''''"
  shows "\<exists>c' w0 r w1 m cb.
    ServicePublisher E target pid c w = Some (None, c', w0) \<and>
    Publish E (pubs w0 pid) ctx k marshal msg headers w0 = Some (r, w1) \<and>
    publications (trace w1) = publications (trace w0)
      @ [(m, Some (if conn_requestTimeout c = 0 then 30 * second else conn_requestTimeout c))] \<and>
    core_callbacks v' = core_callbacks v @ [(msg_Subject m, cb)] \<and>
    (\<exists>u' hctx ev result. deliver_core E cb (m\<lparr>msg_Reply := reply\<rparr>) u = Some u' \<and>
       handler hctx ev (app u) = Some (result, app u') \<and> ce_Payload ev = x \<and>
       di_Key (ce_DeliveryInfo ev) = k \<and>
       replies (trace u') = replies (trace u) @ [(reply, reply_data E (response E resp_marshal result))]) \<and>
    (\<forall>U handler' opts d2 v2. ServiceRequestConsumer E U k handler' opts d v = Some (None, d2, v2) \<longrightarrow>
       map fst (core_callbacks v2) = map fst (core_callbacks v) @ [msg_Subject m])"
proof -
  let ?t = "if conn_requestTimeout c = 0 then 30 * second else conn_requestTimeout c"
  let ?h = "requestResponseWrapper E T resp_marshal handler"
  let ?cons = "core_consumer E d target"
  obtain c' w0 where pub: "ServicePublisher E target pid c w = Some (None, c', w0)"
    "p_publishFn (pubs w0 pid) = Some (CoreRequest ?t)"
    "\<forall>k. publish_subject E (pubs w0 pid) k = serviceRequestSubject target k"
    using ServicePublisher_wired [OF assms(1)] by blast
  from Publish_sends [OF pub(2) assms(7), of marshal msg, OF assms(8), of E ctx k w0]
  obtain r w1 m where sent: "Publish E (pubs w0 pid) ctx k marshal msg headers w0 = Some (r, w1)"
    "publications (trace w1) = publications (trace w0) @ [(m, Some ?t)]"
    "msg_Subject m = serviceRequestSubject target k" "msg_Data m = bytes"
    using pub(3) by auto
  have cb: "core_callbacks v' = core_callbacks v @ [(msg_Subject m, RequestCallback ?cons k target ?h)]"
    using RequestResponseHandler_subscribes [OF assms(2,5)] by (simp add: assms(3) sent(3))
  have "jsc_spanNameFn ?cons \<noteq> None" using assms(4) by (simp add: core_consumer_def)
  moreover have "total_handler ?h" by (rule requestResponseWrapper_total) (rule assms(6))
  ultimately
  obtain q hctx ev u' where run:
    "request_callback E ?cons k target ?h (m\<lparr>msg_Reply := reply\<rparr>) u = Some u'"
    "?h hctx ev (app u) = Some (q, app u')" "ue_Payload ev = bytes" "di_Key (ue_DeliveryInfo ev) = k"
    "replies (trace u') = replies (trace u) @ [(reply, reply_data E q)]"
    using request_callback_run [of ?cons ?h E k target "m\<lparr>msg_Reply := reply\<rparr>" u]
    by (auto simp: sent(4) assms(10))
  from run(2,3) assms(9) obtain result where
    "handler hctx \<lparr>ce_Metadata = ue_Metadata ev, ce_DeliveryInfo = ue_DeliveryInfo ev, ce_Payload = x\<rparr>
       (app u) = Some (result, app u')" "q = response E resp_marshal result"
    by (auto simp: requestResponseWrapper_eq split: sum.splits)
  with run(1,4,5) have "\<exists>u' hctx ev result.
       deliver_core E (RequestCallback ?cons k target ?h) (m\<lparr>msg_Reply := reply\<rparr>) u = Some u' \<and>
       handler hctx ev (app u) = Some (result, app u') \<and> ce_Payload ev = x \<and>
       di_Key (ce_DeliveryInfo ev) = k \<and>
       replies (trace u') = replies (trace u) @ [(reply, reply_data E (response E resp_marshal result))]"
    by (intro exI [of _ u'] exI [of _ hctx] exI [of _ "\<lparr>ce_Metadata = ue_Metadata ev,
        ce_DeliveryInfo = ue_DeliveryInfo ev, ce_Payload = x\<rparr>"] exI [of _ result])
      (simp add: deliver_core_def)
  moreover have "map fst (core_callbacks v2) = map fst (core_callbacks v) @ [msg_Subject m]"
    if "ServiceRequestConsumer E U k handler' opts d v = Some (None, d2, v2)" for U handler' opts d2 v2
    using ServiceRequestConsumer_subscribes [OF assms(2) that] by (simp add: assms(3) sent(3))
  ultimately show ?thesis using pub(1) sent(1,2) cb by blast
qed

theorem request_answered_witness:
  "\<exists>c' w0 r w1 m. ServicePublisher demo_ext ''orders'' 0
       (newConnection ''shop'' ''nats://h'' [] :: (unit, nat) connection) demo_nworld
       = Some (None, c', w0) \<and>
     Publish demo_ext (pubs w0 0) () ''get'' (\<lambda>_. Inr ''1'') () [] w0 = Some (r, w1) \<and>
     publications (trace w1) = publications (trace w0) @ [(m, Some (30 * second))]"
proof -
  let ?c = "newConnection ''shop'' ''nats://h'' [] :: (unit, nat) connection"
  let ?d = "(newConnection ''orders'' ''nats://h'' [])\<lparr>conn_spanNameFn := Some defaultSpanNameFn\<rparr>
    :: (unit, nat) connection"
  let ?rr = "RequestResponseHandler demo_ext demo_type (\<lambda>r. Inr r) ''get'' (\<lambda>_ _ s. Some (Inr '''', s))"
  have mode: "\<not> conn_collectMode ?c" "\<not> conn_collectMode ?d" "conn_serviceName ?d = ''orders''"
    "conn_spanNameFn ?d \<noteq> None" "conn_requestTimeout ?c = 0"
    by (simp_all add: newConnection_def zero_connection_def)
  obtain d' v' where rr: "?rr ?d demo_nworld = Some (None, d', v')"
    by (simp add: RequestResponseHandler_def startRequestResponseConsumer_def subscribe_def
        perform_def Let_def newConnection_def zero_connection_def demo_ext_def)
  have "ty_Unmarshal demo_type ''1'' = Inr 1" by (simp add: demo_type_def)
  from request_answered [OF mode(1-4) rr, where headers = "[]" and marshal = "\<lambda>_ :: unit. Inr ''1''"
      and msg = "()" and bytes = "''1''" and x = 1 and reply = "''_INBOX.1''" and u = demo_cworld
      and pid = 0 and w = demo_nworld and ctx = "()"] this mode(5)
  show ?thesis by simp blast
qed

end
